theory Spec2Isabelle
  imports Main "HOL-Library.AList" "HOL-Library.Char_ord" "HOL-Library.List_Lexorder"
begin

section \<open>Errors\<close>

text \<open>
  The Python exceptions the modelled functions raise, with their message.
  \<open>refine_cls\<close> and \<open>refine_tasks\<close> raise \<open>KeyError\<close> for an unsupported
  \<open>adapt_type\<close> (the failure the specification calls a configuration error) and
  \<open>refine_cls\<close> raises \<open>ValueError\<close> for an empty class list under REPLACE (the
  specification's validation error). Subscripting a dict with a key it does not hold raises
  \<open>KeyError\<close> with the key, subscripting a sequence out of range raises \<open>IndexError\<close>,
  reading a local variable that no executed branch has assigned raises
  \<open>UnboundLocalError\<close>, and \<open>len(None)\<close> raises \<open>TypeError\<close>.
\<close>

datatype error =
    KeyError string
  | ValueError string
  | IndexError
  | ZeroDivisionError
  | NotImplementedError string
  | UnboundLocalError string
  | TypeError

section \<open>Task and class set refiner (mpa/cls/stage.py)\<close>

text \<open>
  A task set is a Python dict from task name to class list. Python dicts keep insertion
  order, and storing under a key that is present keeps its position, which is what
  \<^const>\<open>AList.update\<close> does on an association list.
\<close>

type_synonym class_list = "string list"
type_synonym task_set = "(string \<times> class_list) list"

text \<open>
  The two dicts the refiners subscript. A key that is absent is \<open>None\<close>: the subscript
  then raises \<open>KeyError\<close>.
\<close>

record train_cfg =
  cfg_new_classes :: "class_list option"
  cfg_tasks :: "task_set option"

record model_meta =
  meta_CLASSES :: "class_list option"
  meta_tasks :: "task_set option"

definition unsupported :: "string \<Rightarrow> error" where
  "unsupported adapt_type = KeyError (adapt_type @ '' is not supported for task_adapt options!'')"

text \<open>
  One round of the loop \<open>for task, cls in new_tasks.items()\<close> of \<open>refine_tasks\<close>.
  \<open>model_tasks.get(task)\<close> is falsy when the task is absent and when its list is empty.
\<close>

definition merge_task :: "task_set \<Rightarrow> string \<times> class_list \<Rightarrow> task_set" where
  "merge_task model_tasks tc =
     (case tc of (task, cls) \<Rightarrow>
        (case map_of model_tasks task of
           Some (x # xs) \<Rightarrow>
             AList.update task ((x # xs) @ [c \<leftarrow> cls. c \<notin> set (x # xs)]) model_tasks
         | _ \<Rightarrow> AList.update task cls model_tasks))"

fun merge_tasks :: "task_set \<Rightarrow> task_set \<Rightarrow> task_set" where
  "merge_tasks model_tasks [] = model_tasks"
| "merge_tasks model_tasks (tc # new_tasks) = merge_tasks (merge_task model_tasks tc) new_tasks"

definition refine_tasks :: "'a train_cfg_scheme \<Rightarrow> 'b model_meta_scheme \<Rightarrow> string \<Rightarrow> error + (task_set \<times> task_set)" where
  "refine_tasks train_cfg meta adapt_type =
     (case cfg_tasks train_cfg of
        None \<Rightarrow> Inl (KeyError ''tasks'')
      | Some new_tasks \<Rightarrow>
          if adapt_type = ''REPLACE'' then Inr (new_tasks, [])
          else if adapt_type = ''MERGE'' then
            (case meta_tasks meta of
               None \<Rightarrow> Inl (KeyError ''tasks'')
             | Some old_tasks \<Rightarrow> Inr (merge_tasks old_tasks new_tasks, old_tasks))
          else Inl (unsupported adapt_type))"

definition refine_cls :: "'a train_cfg_scheme \<Rightarrow> 'b model_meta_scheme \<Rightarrow> string \<Rightarrow> error + (class_list \<times> class_list)" where
  "refine_cls train_cfg meta adapt_type =
     (case cfg_new_classes train_cfg of
        None \<Rightarrow> Inl (KeyError ''new_classes'')
      | Some new_classes \<Rightarrow>
          (case meta_CLASSES meta of
             None \<Rightarrow> Inl (KeyError ''CLASSES'')
           | Some old_classes \<Rightarrow>
               if adapt_type = ''REPLACE'' then
                 (if length new_classes = 0
                  then Inl (ValueError ''Data classes should contain at least one class!'')
                  else Inr (new_classes, old_classes))
               else if adapt_type = ''MERGE'' then
                 Inr (old_classes @ [cls \<leftarrow> new_classes. cls \<notin> set old_classes], old_classes)
               else Inl (unsupported adapt_type)))"

section \<open>Class-name mapper\<close>

text \<open>
  Modelled from the spec: \<open>map_class_names\<close> is imported from
  \<open>mpa.modules.utils.task_adapt\<close>, a module that is not among the sources. The
  specification's contract is \<open>map_class_names(source_list, destination_list)\<close>: for each
  name in \<open>destination_list\<close>, find its position in \<open>source_list\<close>; if absent, emit
  \<open>-1\<close>; with duplicate names the first match is taken.
\<close>

fun position :: "string \<Rightarrow> class_list \<Rightarrow> int" where
  "position name [] = - 1"
| "position name (x # xs) =
     (if x = name then 0
      else (let p = position name xs in if p < 0 then - 1 else p + 1))"

definition map_class_names :: "class_list \<Rightarrow> class_list \<Rightarrow> int list" where
  "map_class_names source_list destination_list =
     map (\<lambda>name. position name source_list) destination_list"

section \<open>Weight re-indexing (CustomSingleStageDetector.load_state_dict_pre_hook)\<close>

text \<open>
  A parameter block is the list of its rows (the slices along dimension 0 of the tensor);
  a row is a value of any type, copied whole by \<open>copy_\<close>. Rows of one block are taken to
  have one shape, so that \<open>copy_\<close> itself does not fail. Subscripting a block out of range
  raises \<open>IndexError\<close>.

  The helper that computes \<open>model2chkpt\<close> is not among the sources, so the mixing takes the
  mapping as an argument, and the hook takes the helper (\<open>mcn\<close>) as an argument.
\<close>

type_synonym 'a block = "'a list"
type_synonym 'a state_dict = "string \<rightharpoonup> 'a block"

text \<open>The loop \<open>for m, c in enumerate(model2chkpt)\<close> for one anchor.\<close>

fun mix_classes :: "nat \<Rightarrow> nat \<Rightarrow> nat \<Rightarrow> 'a block \<Rightarrow> (nat \<times> int) list \<Rightarrow> 'a block \<Rightarrow> error + 'a block" where
  "mix_classes anchor_idx num_chkpt_classes num_model_classes chkpt_param [] model_param =
     Inr model_param"
| "mix_classes anchor_idx num_chkpt_classes num_model_classes chkpt_param ((m, c) # rest) model_param =
     (if c \<ge> 0 then
        (if anchor_idx * num_model_classes + m < length model_param
            \<and> anchor_idx * num_chkpt_classes + nat c < length chkpt_param
         then mix_classes anchor_idx num_chkpt_classes num_model_classes chkpt_param rest
                (model_param[anchor_idx * num_model_classes + m :=
                   chkpt_param ! (anchor_idx * num_chkpt_classes + nat c)])
         else Inl IndexError)
      else mix_classes anchor_idx num_chkpt_classes num_model_classes chkpt_param rest model_param)"

text \<open>The loop \<open>for anchor_idx in range(num_anchors)\<close>.\<close>

fun mix_anchors :: "nat \<Rightarrow> nat \<Rightarrow> 'a block \<Rightarrow> int list \<Rightarrow> nat list \<Rightarrow> 'a block \<Rightarrow> error + 'a block" where
  "mix_anchors num_chkpt_classes num_model_classes chkpt_param model2chkpt [] model_param =
     Inr model_param"
| "mix_anchors num_chkpt_classes num_model_classes chkpt_param model2chkpt (anchor_idx # anchors) model_param =
     (case mix_classes anchor_idx num_chkpt_classes num_model_classes chkpt_param
             (enumerate 0 model2chkpt) model_param of
        Inl e \<Rightarrow> Inl e
      | Inr model_param' \<Rightarrow>
          mix_anchors num_chkpt_classes num_model_classes chkpt_param model2chkpt anchors model_param')"

text \<open>
  The body of the inner loop for one parameter: \<open>model_param\<close> is the clone of the model's
  freshly initialised block, \<open>chkpt_param\<close> the checkpoint's block. The counts of anchors
  are \<open>int(shape[0] / num_classes)\<close>, the floor of the quotient. In the hook both class
  counts are lengths of lists that end in the background name, hence positive; a count of
  zero would raise \<open>ZeroDivisionError\<close>.
\<close>

definition mix_param :: "int list \<Rightarrow> nat \<Rightarrow> nat \<Rightarrow> 'a block \<Rightarrow> 'a block \<Rightarrow> error + 'a block" where
  "mix_param model2chkpt num_chkpt_classes num_model_classes chkpt_param model_param =
     (if num_chkpt_classes = 0 \<or> num_model_classes = 0 then Inl ZeroDivisionError
      else
        let num_chkpt_anchors = length chkpt_param div num_chkpt_classes;
            num_model_anchors = length model_param div num_model_classes;
            num_anchors = min num_chkpt_anchors num_model_anchors
        in mix_anchors num_chkpt_classes num_model_classes chkpt_param model2chkpt
             [0..<num_anchors] model_param)"

section \<open>The hook: names and levels\<close>

text \<open>
  \<open>'{}'.format(level)\<close> writes the level in decimal; \<open>format\<close> puts its argument in
  place of the first \<open>{}\<close> of a template (each template of the hook has one).
\<close>

definition digit :: "nat \<Rightarrow> char" where
  "digit d = ''0123456789'' ! d"

fun str :: "nat \<Rightarrow> string" where
  "str n = (if n < 10 then [digit n] else str (n div 10) @ [digit (n mod 10)])"

declare str.simps [simp del]

fun format :: "string \<Rightarrow> string \<Rightarrow> string" where
  "format (c # d # rest) arg =
     (if c = CHR ''{'' \<and> d = CHR ''}'' then arg @ rest else c # format (d # rest) arg)"
| "format [c] arg = [c]"
| "format [] arg = []"

text \<open>The class-relevant parameter names, chosen by which key the checkpoint holds.\<close>

definition param_names :: "'a state_dict \<Rightarrow> string \<Rightarrow> string list" where
  "param_names chkpt_dict prefix =
     (if chkpt_dict (prefix @ ''bbox_head.cls_convs.0.weight'') \<noteq> None then
        [''bbox_head.cls_convs.{}.weight'', ''bbox_head.cls_convs.{}.bias'']
      else if chkpt_dict (prefix @ ''bbox_head.cls_convs.0.0.weight'') \<noteq> None then
        [''bbox_head.cls_convs.{}.3.weight'', ''bbox_head.cls_convs.{}.3.bias'']
      else [])"

text \<open>
  The loop \<open>for model_name in param_names\<close> at one level. It returns \<open>level_found\<close>,
  the exception raised by the mixing if any, and the checkpoint dict, which is updated in
  place. A name missing from the model's state dict or from the checkpoint dict breaks the
  loop.
\<close>

fun mix_level :: "'a state_dict \<Rightarrow> int list \<Rightarrow> nat \<Rightarrow> nat \<Rightarrow> string \<Rightarrow> nat \<Rightarrow> string list \<Rightarrow> bool
    \<Rightarrow> 'a state_dict \<Rightarrow> bool \<times> error option \<times> 'a state_dict" where
  "mix_level model_dict model2chkpt num_chkpt_classes num_model_classes prefix level [] level_found chkpt_dict =
     (level_found, None, chkpt_dict)"
| "mix_level model_dict model2chkpt num_chkpt_classes num_model_classes prefix level (name # names) level_found chkpt_dict =
     (let model_name = format name (str level);
          chkpt_name = prefix @ model_name
      in case model_dict model_name of
           None \<Rightarrow> (level_found, None, chkpt_dict)
         | Some model_param \<Rightarrow>
             (case chkpt_dict chkpt_name of
                None \<Rightarrow> (level_found, None, chkpt_dict)
              | Some chkpt_param \<Rightarrow>
                  (case mix_param model2chkpt num_chkpt_classes num_model_classes chkpt_param model_param of
                     Inl e \<Rightarrow> (True, Some e, chkpt_dict)
                   | Inr mixed \<Rightarrow>
                       mix_level model_dict model2chkpt num_chkpt_classes num_model_classes prefix level
                         names True (chkpt_dict(chkpt_name \<mapsto> mixed)))))"

text \<open>The loop \<open>for level in range(10)\<close>, left when a level was not found.\<close>

fun mix_levels :: "'a state_dict \<Rightarrow> int list \<Rightarrow> nat \<Rightarrow> nat \<Rightarrow> string \<Rightarrow> string list \<Rightarrow> nat list
    \<Rightarrow> 'a state_dict \<Rightarrow> 'a state_dict \<times> error option" where
  "mix_levels model_dict model2chkpt num_chkpt_classes num_model_classes prefix names [] chkpt_dict =
     (chkpt_dict, None)"
| "mix_levels model_dict model2chkpt num_chkpt_classes num_model_classes prefix names (level # levels) chkpt_dict =
     (case mix_level model_dict model2chkpt num_chkpt_classes num_model_classes prefix level names False chkpt_dict of
        (level_found, Some e, chkpt_dict') \<Rightarrow> (chkpt_dict', Some e)
      | (level_found, None, chkpt_dict') \<Rightarrow>
          if \<not> level_found then (chkpt_dict', None)
          else mix_levels model_dict model2chkpt num_chkpt_classes num_model_classes prefix names levels chkpt_dict')"

text \<open>
  The hook. \<open>mcn\<close> stands for the imported \<open>map_class_names\<close>, \<open>model_dict\<close> for
  \<open>model.state_dict()\<close>. The result is the checkpoint dict after the call and the
  exception that ended the call, if any.
\<close>

definition load_state_dict_pre_hook ::
  "(class_list \<Rightarrow> class_list \<Rightarrow> int list) \<Rightarrow> 'a state_dict \<Rightarrow> class_list \<Rightarrow> class_list
     \<Rightarrow> 'a state_dict \<Rightarrow> string \<Rightarrow> 'a state_dict \<times> error option" where
  "load_state_dict_pre_hook mcn model_dict model_classes chkpt_classes chkpt_dict prefix =
     (let chkpt_classes = chkpt_classes @ [''__BG__''];
          model_classes = model_classes @ [''__BG__''];
          num_chkpt_classes = length chkpt_classes;
          num_model_classes = length model_classes;
          model2chkpt = mcn model_classes chkpt_classes
      in mix_levels model_dict model2chkpt num_chkpt_classes num_model_classes prefix
           (param_names chkpt_dict prefix) [0..<10] chkpt_dict)"

text \<open>
  All four name templates of the hook; a name of a level of 10 or more; and the condition
  under which the hook leaves the level loop at a level: no name to probe, or the first one
  missing from the model's state dict or from the checkpoint dict.
\<close>

definition all_param_names :: "string list" where
  "all_param_names =
     [''bbox_head.cls_convs.{}.weight'', ''bbox_head.cls_convs.{}.bias'',
      ''bbox_head.cls_convs.{}.3.weight'', ''bbox_head.cls_convs.{}.3.bias'']"

definition high_level :: "string \<Rightarrow> bool" where
  "high_level model_name \<longleftrightarrow>
     (\<exists>name \<in> set all_param_names. \<exists>level \<ge> 10. model_name = format name (str level))"

definition first_missing :: "'a state_dict \<Rightarrow> 'a state_dict \<Rightarrow> string \<Rightarrow> nat \<Rightarrow> bool" where
  "first_missing model_dict chkpt_dict prefix level \<longleftrightarrow>
     (case param_names chkpt_dict prefix of
        [] \<Rightarrow> True
      | name # _ \<Rightarrow> model_dict (format name (str level)) = None
                    \<or> chkpt_dict (prefix @ format name (str level)) = None)"

section \<open>Task configuration (ClsStage.configure_task) and the task adaptation hook\<close>

definition CLASS_INC_DATASET :: "string list" where
  "CLASS_INC_DATASET = [''MPAClsDataset'', ''ClsDirDataset'', ''ClsTVDataset'']"

definition PSEUDO_LABEL_ENABLE_DATASET :: "string list" where
  "PSEUDO_LABEL_ENABLE_DATASET = [''ClassIncDataset'', ''LwfTaskIncDataset'', ''ClsTVDataset'']"

definition WEIGHT_MIX_CLASSIFIER :: "string list" where
  "WEIGHT_MIX_CLASSIFIER = [''SAMImageClassifier'']"

text \<open>
  \<open>np.setdiff1d\<close> returns the sorted, unique values of its first argument that are not in
  the second. Strings are ordered as Python orders them, character by character.
\<close>

definition setdiff1d :: "class_list \<Rightarrow> class_list \<Rightarrow> class_list" where
  "setdiff1d ar1 ar2 = sort (remdups [x \<leftarrow> ar1. x \<notin> set ar2])"

text \<open>
  The configuration, restricted to the keys \<open>configure_task\<close> reads or writes:
  \<open>cfg['task_adapt']\<close>, \<open>cfg.load_from\<close>, \<open>cfg.model\<close> and its head,
  \<open>cfg.data.val\<close> and \<open>cfg.data.test\<close>, and the custom hooks; the train data config;
  and the local variables of the function, where \<open>None\<close> for \<open>old_tasks\<close> and
  \<open>old_classes\<close> is a variable not yet assigned. \<open>Stage.get_train_data_cfg\<close>,
  \<open>Stage.get_model_classes\<close>, \<open>Stage.get_data_classes\<close> and
  \<open>update_or_add_custom_hook\<close> are not among the sources: the train data config, the two
  class lists and the function that registers a hook are arguments. The loss weight
  \<open>1.0\<close> is written \<open>1\<close>.
\<close>

record 'p train_data_cfg = train_cfg +
  ds_type :: string
  ds_classes :: "class_list option"
  ds_CLASSES :: "class_list option"
  ds_pre_stage_res :: "'p option"
  ds_model_tasks :: "task_set option"
  ds_dst_classes :: "class_list option"

record loss_cfg =
  loss_type :: string
  loss_weight :: nat
  gamma :: nat
  reduction :: string

record hook_cfg =
  hook_type :: string
  hook_src_classes :: class_list
  hook_dst_classes :: class_list
  hook_model_type :: string
  hook_sampler_flag :: bool
  hook_efficient_mode :: bool

record 'h cfg =
  task_adapt_type :: "string option"
  task_adapt_op :: "string option"
  task_adapt_efficient_mode :: "bool option"
  load_from :: string
  model_type :: string
  model_task_adapt :: "(class_list \<times> class_list) option"
  head_num_classes :: "nat option"
  head_num_old_classes :: "nat option"
  head_tasks :: "task_set option"
  head_old_tasks :: "task_set option"
  head_loss :: "loss_cfg option"
  val_dst_classes :: "class_list option"
  test_dst_classes :: "class_list option"
  custom_hooks :: 'h

record ('h, 'p) task_state =
  cfg :: "'h cfg"
  train_data_cfg :: "'p train_data_cfg"
  model_meta :: model_meta
  local_model_tasks :: "task_set option"
  local_old_tasks :: "task_set option"
  local_dst_classes :: "class_list option"
  local_old_classes :: "class_list option"

text \<open>Truth value of \<open>d.get(key)\<close> for a list or dict value: present and not empty.\<close>

definition truthy :: "'a list option \<Rightarrow> bool" where
  "truthy v = (case v of Some (x # xs) \<Rightarrow> True | _ \<Rightarrow> False)"

text \<open>Lines 141 to 146: the head's class count and the metadata's class list.\<close>

definition set_meta_classes :: "class_list \<Rightarrow> class_list \<Rightarrow> ('h, 'p) task_state \<Rightarrow> ('h, 'p) task_state" where
  "set_meta_classes model_classes data_classes s =
     (if model_classes \<noteq> [] then
        s\<lparr>cfg := (cfg s)\<lparr>head_num_classes := Some (length model_classes)\<rparr>,
          model_meta := (model_meta s)\<lparr>meta_CLASSES := Some model_classes\<rparr>\<rparr>
      else if data_classes \<noteq> [] then
        s\<lparr>cfg := (cfg s)\<lparr>head_num_classes := Some (length data_classes)\<rparr>,
          model_meta := (model_meta s)\<lparr>meta_CLASSES := Some data_classes\<rparr>\<rparr>
      else s)"

text \<open>Lines 148 to 150.\<close>

definition fill_new_classes :: "class_list \<Rightarrow> class_list \<Rightarrow> ('h, 'p) task_state \<Rightarrow> ('h, 'p) task_state" where
  "fill_new_classes model_classes data_classes s =
     (if \<not> truthy (cfg_new_classes (train_data_cfg s)) then
        s\<lparr>train_data_cfg := (train_data_cfg s)\<lparr>cfg_new_classes := Some (setdiff1d data_classes model_classes)\<rparr>\<rparr>
      else s)"

definition adapt_type_of :: "'h cfg \<Rightarrow> string" where
  "adapt_type_of c = (case task_adapt_op c of None \<Rightarrow> ''REPLACE'' | Some op \<Rightarrow> op)"

definition efficient_mode_of :: "'h cfg \<Rightarrow> bool" where
  "efficient_mode_of c = (case task_adapt_efficient_mode c of None \<Rightarrow> False | Some b \<Rightarrow> b)"

text \<open>Lines 154 to 175, the training phase.\<close>

definition refine_training :: "('h, 'p) task_state \<Rightarrow> error + ('h, 'p) task_state" where
  "refine_training s =
     (if truthy (cfg_tasks (train_data_cfg s)) then
        (if truthy (meta_tasks (model_meta s)) then
           (case refine_tasks (train_data_cfg s) (model_meta s) (adapt_type_of (cfg s)) of
              Inl e \<Rightarrow> Inl e
            | Inr (mt, ot) \<Rightarrow>
                Inr (s\<lparr>local_model_tasks := Some mt, local_old_tasks := Some ot,
                       cfg := (cfg s)\<lparr>head_old_tasks := Some ot,
                                      head_tasks := (case head_tasks (cfg s) of
                                                       None \<Rightarrow> cfg_tasks (train_data_cfg s)
                                                     | Some t \<Rightarrow> Some t)\<rparr>\<rparr>))
         else Inl (KeyError (''can not find task meta data from '' @ load_from (cfg s) @ ''.'')))
      else if cfg_new_classes (train_data_cfg s) \<noteq> None then
        (if truthy (meta_CLASSES (model_meta s)) then
           (case refine_cls (train_data_cfg s) (model_meta s) (adapt_type_of (cfg s)) of
              Inl e \<Rightarrow> Inl e
            | Inr (dc, oc) \<Rightarrow> Inr (s\<lparr>local_dst_classes := Some dc, local_old_classes := Some oc\<rparr>))
         else Inl (KeyError (''can not find CLASSES or classes meta data from '' @ load_from (cfg s) @ ''.'')))
      else Inl (KeyError
        ''\"new_classes\" or \"tasks\" should be defined for incremental learning w/ current model.''))"

text \<open>Lines 177 to 213, for \<open>task_adapt_type == 'mpa'\<close>.\<close>

definition task_adapt_hook :: "class_list \<Rightarrow> class_list \<Rightarrow> string \<Rightarrow> bool \<Rightarrow> bool \<Rightarrow> hook_cfg" where
  "task_adapt_hook old dst mtype sampler_flag efficient_mode =
     \<lparr>hook_type = ''TaskAdaptHook'', hook_src_classes = old, hook_dst_classes = dst,
      hook_model_type = mtype, hook_sampler_flag = sampler_flag, hook_efficient_mode = efficient_mode\<rparr>"

definition configure_mpa :: "(hook_cfg \<Rightarrow> 'h \<Rightarrow> 'h) \<Rightarrow> class_list \<Rightarrow> class_list
    \<Rightarrow> ('h, 'p) task_state \<Rightarrow> error + ('h, 'p) task_state" where
  "configure_mpa update_or_add_custom_hook model_classes data_classes s =
     (if ds_type (train_data_cfg s) \<notin> set CLASS_INC_DATASET then
        Inl (NotImplementedError (''Class Incremental Learning for '' @ ds_type (train_data_cfg s)
               @ '' is not yet supported!''))
      else
        let c1 = (if model_type (cfg s) \<in> set WEIGHT_MIX_CLASSIFIER
                  then (cfg s)\<lparr>model_task_adapt := Some (model_classes, data_classes)\<rparr>
                  else cfg s)
        in case local_old_classes s of
             None \<Rightarrow> Inl (UnboundLocalError ''old_classes'')
           | Some old \<Rightarrow>
               (case local_dst_classes s of
                  None \<Rightarrow> Inl TypeError
                | Some dst \<Rightarrow>
                    let new_classes = setdiff1d dst old;
                        t1 = (train_data_cfg s)\<lparr>cfg_new_classes := Some new_classes,
                                                  ds_classes := Some dst\<rparr>;
                        gamma = (if efficient_mode_of c1 then 2 else 3);
                        c2 = c1\<lparr>head_num_classes := Some (length dst),
                                head_loss := Some \<lparr>loss_type = ''SoftmaxFocalLoss'', loss_weight = 1,
                                                    gamma = gamma, reduction = ''none''\<rparr>\<rparr>;
                        sampler_flag = (if length new_classes > 0 then True else False);
                        hook = task_adapt_hook old dst (model_type c2) sampler_flag (efficient_mode_of c2);
                        c3 = c2\<lparr>custom_hooks := update_or_add_custom_hook hook (custom_hooks c2)\<rparr>
                    in Inr (s\<lparr>cfg := c3, train_data_cfg := t1\<rparr>)))"

text \<open>Lines 216 to 226, the evaluation phase.\<close>

definition refine_eval :: "('h, 'p) task_state \<Rightarrow> error + ('h, 'p) task_state" where
  "refine_eval s =
     (if truthy (cfg_tasks (train_data_cfg s)) then
        (if truthy (meta_tasks (model_meta s)) then
           Inr (s\<lparr>cfg := (cfg s)\<lparr>head_tasks := meta_tasks (model_meta s)\<rparr>\<rparr>)
         else Inl (KeyError (''can not find task meta data from '' @ load_from (cfg s) @ ''.'')))
      else if truthy (cfg_new_classes (train_data_cfg s)) then
        (if truthy (meta_CLASSES (model_meta s)) then
           (case refine_cls (train_data_cfg s) (model_meta s) (adapt_type_of (cfg s)) of
              Inl e \<Rightarrow> Inl e
            | Inr (dc, oc) \<Rightarrow>
                Inr (s\<lparr>local_dst_classes := Some dc,
                       cfg := (cfg s)\<lparr>head_num_classes := Some (length dc)\<rparr>\<rparr>))
         else Inl (KeyError (''can not find classes meta data from '' @ load_from (cfg s) @ ''.'')))
      else Inr s)"

text \<open>Lines 229 to 244, pseudo label augmentation.\<close>

definition pseudo_label :: "'p option \<Rightarrow> ('h, 'p) task_state \<Rightarrow> error + ('h, 'p) task_state" where
  "pseudo_label pre_stage_res s =
     (case pre_stage_res of
        None \<Rightarrow> Inr s
      | Some res \<Rightarrow>
          if ds_type (train_data_cfg s) \<notin> set PSEUDO_LABEL_ENABLE_DATASET then
            Inl (NotImplementedError (''Pseudo label loading for '' @ ds_type (train_data_cfg s)
                   @ '' is not yet supported!''))
          else
            let t1 = (train_data_cfg s)\<lparr>ds_pre_stage_res := Some res\<rparr> in
            if truthy (cfg_tasks t1) then
              (case local_old_tasks s of
                 None \<Rightarrow> Inl (UnboundLocalError ''old_tasks'')
               | Some ot \<Rightarrow>
                   Inr (s\<lparr>train_data_cfg := t1\<lparr>ds_model_tasks := local_model_tasks s\<rparr>,
                          cfg := (cfg s)\<lparr>head_old_tasks := Some ot\<rparr>\<rparr>))
            else if truthy (ds_CLASSES t1) then
              (case local_dst_classes s of
                 None \<Rightarrow> Inl TypeError
               | Some dst \<Rightarrow>
                   (case local_old_classes s of
                      None \<Rightarrow> Inl (UnboundLocalError ''old_classes'')
                    | Some old \<Rightarrow>
                        Inr (s\<lparr>train_data_cfg := t1\<lparr>ds_dst_classes := Some dst\<rparr>,
                               cfg := (cfg s)\<lparr>val_dst_classes := Some dst, test_dst_classes := Some dst,
                                              head_num_classes := Some (length dst),
                                              head_num_old_classes := Some (length old)\<rparr>\<rparr>)))
            else Inr (s\<lparr>train_data_cfg := t1\<rparr>))"

definition configure_task :: "(hook_cfg \<Rightarrow> 'h \<Rightarrow> 'h) \<Rightarrow> class_list \<Rightarrow> class_list \<Rightarrow> 'p option
    \<Rightarrow> 'h cfg \<Rightarrow> 'p train_data_cfg \<Rightarrow> bool \<Rightarrow> model_meta \<Rightarrow> error + ('h, 'p) task_state" where
  "configure_task update_or_add_custom_hook model_classes data_classes pre_stage_res
       cfg0 train_data_cfg0 training model_meta0 =
     (let s0 = \<lparr>cfg = cfg0, train_data_cfg = train_data_cfg0, model_meta = model_meta0,
                 local_model_tasks = None, local_old_tasks = None, local_dst_classes = None, local_old_classes = None\<rparr>;
          s1 = set_meta_classes model_classes data_classes s0;
          s2 = fill_new_classes model_classes data_classes s1
      in case (if training then
                 (case refine_training s2 of
                    Inl e \<Rightarrow> Inl e
                  | Inr s3 \<Rightarrow>
                      if task_adapt_type (cfg s3) = Some ''mpa''
                      then configure_mpa update_or_add_custom_hook model_classes data_classes s3
                      else Inr s3)
               else refine_eval s2) of
           Inl e \<Rightarrow> Inl e
         | Inr s4 \<Rightarrow> pseudo_label pre_stage_res s4)"

text \<open>
  \<open>TaskAdaptHook\<close>: its constructor stores the keys of the hook config, so the hook is
  modelled by the config. \<open>ClsIncrSampler\<close> is not among the sources and is an argument,
  as is \<open>inner_dataset\<close>, the attribute \<open>dataset\<close> of a dataset wrapper if it has one.
\<close>

record ('d, 's, 'f) data_loader =
  dataset :: 'd
  batch_size :: nat
  sampler :: 's
  num_workers :: nat
  collate_fn :: 'f
  pin_memory :: bool
  worker_init_fn :: 'f

record ('d, 's, 'f) runner =
  runner_data_loader :: "('d, 's, 'f) data_loader"

definition before_epoch :: "('d \<Rightarrow> nat \<Rightarrow> bool \<Rightarrow> 's) \<Rightarrow> ('d \<Rightarrow> 'd option) \<Rightarrow> hook_cfg
    \<Rightarrow> ('d, 's, 'f, 'r) runner_scheme \<Rightarrow> ('d, 's, 'f, 'r) runner_scheme" where
  "before_epoch ClsIncrSampler inner_dataset self runner =
     (if hook_sampler_flag self then
        let dataset0 = dataset (runner_data_loader runner);
            dataset1 = (case inner_dataset dataset0 of Some d \<Rightarrow> d | None \<Rightarrow> dataset0);
            batch_size1 = batch_size (runner_data_loader runner);
            num_workers1 = num_workers (runner_data_loader runner);
            collate_fn1 = collate_fn (runner_data_loader runner);
            worker_init_fn1 = worker_init_fn (runner_data_loader runner);
            sampler1 = ClsIncrSampler dataset1 batch_size1 (hook_efficient_mode self)
        in runner\<lparr>runner_data_loader :=
             \<lparr>dataset = dataset1, batch_size = batch_size1, sampler = sampler1,
              num_workers = num_workers1, collate_fn = collate_fn1, pin_memory = False,
              worker_init_fn = worker_init_fn1\<rparr>\<rparr>
      else runner)"

section \<open>Segmentation statistics (SegIncrVOCDataset.statistics)\<close>

text \<open>
  \<open>self.img_indices\<close>, which the constructor sets to \<open>dict(old=[], new=[])\<close> before it
  calls \<open>statistics\<close>.
\<close>

record img_indices =
  old_indices :: "nat list"
  new_indices :: "nat list"

text \<open>Subscripting a Python list: a negative index counts from the end.\<close>

definition py_index :: "'a list \<Rightarrow> int \<Rightarrow> error + 'a" where
  "py_index xs idx =
     (if 0 \<le> idx \<and> idx < int (length xs) then Inr (xs ! nat idx)
      else if idx < 0 \<and> - int (length xs) \<le> idx then Inr (xs ! nat (int (length xs) + idx))
      else Inl IndexError)"

text \<open>The loop \<open>for i in gt: label_schema.append(classes[i])\<close>.\<close>

fun label_schema_of :: "class_list \<Rightarrow> nat list \<Rightarrow> error + class_list" where
  "label_schema_of classes [] = Inr []"
| "label_schema_of classes (i # gt) =
     (if i < length classes then
        (case label_schema_of classes gt of
           Inl e \<Rightarrow> Inl e
         | Inr label_schema \<Rightarrow> Inr (classes ! i # label_schema))
      else Inl IndexError)"

text \<open>The comprehension \<open>[model2data[idx] for idx in new_class_indices]\<close>.\<close>

fun new_class_values_of :: "int list \<Rightarrow> int list \<Rightarrow> error + int list" where
  "new_class_values_of model2data [] = Inr []"
| "new_class_values_of model2data (idx # new_class_indices) =
     (case py_index model2data idx of
        Inl e \<Rightarrow> Inl e
      | Inr v \<Rightarrow>
          (case new_class_values_of model2data new_class_indices of
             Inl e \<Rightarrow> Inl e
           | Inr vs \<Rightarrow> Inr (v # vs)))"

text \<open>
  The body of the loop over the samples, up to the test of \<open>any\<close>. A ground-truth map is
  the list of its pixel values; \<open>np.unique\<close> gives the sorted distinct values. \<open>mcn\<close>
  stands for the imported \<open>map_class_names\<close>. \<open>value is not -1\<close> compares small
  integers, for which identity is equality.
\<close>

definition has_new_class :: "(class_list \<Rightarrow> class_list \<Rightarrow> int list) \<Rightarrow> class_list \<Rightarrow> int list
    \<Rightarrow> nat list \<Rightarrow> error + bool" where
  "has_new_class mcn classes new_class_indices gt_map =
     (let gt_map = map (\<lambda>p. if p = 255 then 0 else p) gt_map;
          gt = sort (remdups gt_map)
      in case label_schema_of classes gt of
           Inl e \<Rightarrow> Inl e
         | Inr label_schema \<Rightarrow>
             (let model2data = mcn classes label_schema
              in case new_class_values_of model2data new_class_indices of
                   Inl e \<Rightarrow> Inl e
                 | Inr new_class_values \<Rightarrow> Inr (\<exists>value \<in> set new_class_values. value \<noteq> - 1)))"

text \<open>
  The loop \<open>for idx in range(len(gt_seg_maps))\<close>; an exception leaves the indices
  collected so far.
\<close>

fun statistics_loop :: "(class_list \<Rightarrow> class_list \<Rightarrow> int list) \<Rightarrow> class_list \<Rightarrow> int list
    \<Rightarrow> nat list list \<Rightarrow> nat list \<Rightarrow> img_indices \<Rightarrow> img_indices \<times> error option" where
  "statistics_loop mcn classes new_class_indices gt_seg_maps [] img = (img, None)"
| "statistics_loop mcn classes new_class_indices gt_seg_maps (idx # rest) img =
     (case has_new_class mcn classes new_class_indices (gt_seg_maps ! idx) of
        Inl e \<Rightarrow> (img, Some e)
      | Inr is_new \<Rightarrow>
          statistics_loop mcn classes new_class_indices gt_seg_maps rest
            (if is_new then img\<lparr>new_indices := new_indices img @ [idx]\<rparr>
             else img\<lparr>old_indices := old_indices img @ [idx]\<rparr>))"

text \<open>
  \<open>statistics\<close>; \<open>gt_seg_maps\<close> is the result of \<open>self.get_gt_seg_maps(False)\<close>, a
  method of the base class.
\<close>

definition statistics :: "(class_list \<Rightarrow> class_list \<Rightarrow> int list) \<Rightarrow> class_list \<Rightarrow> class_list
    \<Rightarrow> nat list list \<Rightarrow> img_indices \<times> error option" where
  "statistics mcn self_classes self_new_classes gt_seg_maps =
     (let classes = ''background'' # self_classes;
          new_class_indices = mcn self_new_classes classes
      in statistics_loop mcn classes new_class_indices gt_seg_maps [0..<length gt_seg_maps]
           \<lparr>old_indices = [], new_indices = []\<rparr>)"

text \<open>
  Whether a sample holds a new class: after 255 has become 0, some pixel has a class name
  that is in \<open>new_classes\<close>. And the maps whose pixel values all name a class.
\<close>

definition contains_new_class :: "class_list \<Rightarrow> class_list \<Rightarrow> nat list \<Rightarrow> bool" where
  "contains_new_class self_classes self_new_classes gt_map \<longleftrightarrow>
     (\<exists>p \<in> set (map (\<lambda>p. if p = 255 then 0 else p) gt_map).
        (''background'' # self_classes) ! p \<in> set self_new_classes)"

definition valid_pixels :: "class_list \<Rightarrow> nat list \<Rightarrow> bool" where
  "valid_pixels self_classes gt_map \<longleftrightarrow>
     (\<forall>p \<in> set gt_map. p = 255 \<or> p < length (''background'' # self_classes))"

section \<open>The refiners on a store of objects\<close>

text \<open>
  Whether the refiners change their inputs, and what the result shares with them, depends on
  object identity, so the two functions are modelled a second time on a store. The store
  holds the list objects (class lists) and the dict objects (task sets, from task name to
  the address of a class list); an address is an index, and a new object is put at the
  end. Strings are immutable and are values. The train config and the metadata hold, under
  each of their keys, the address of an object or nothing.
\<close>

record store =
  list_objs :: "class_list list"
  dict_objs :: "(string \<times> nat) list list"

record train_cfg_refs =
  ref_new_classes :: "nat option"
  ref_tasks :: "nat option"

record meta_refs =
  ref_CLASSES :: "nat option"
  ref_meta_tasks :: "nat option"

text \<open>The object at an address; Python has no dangling reference, the default is never read.\<close>

definition list_at :: "store \<Rightarrow> nat \<Rightarrow> class_list" where
  "list_at s a = (if a < length (list_objs s) then list_objs s ! a else [])"

definition dict_at :: "store \<Rightarrow> nat \<Rightarrow> (string \<times> nat) list" where
  "dict_at s a = (if a < length (dict_objs s) then dict_objs s ! a else [])"

text \<open>
  Creating a list or a dict, and \<open>d[key] = v\<close> (also \<open>d.update({key: v})\<close>, whose
  one-entry dict literal is dropped at once).
\<close>

definition alloc_list :: "class_list \<Rightarrow> store \<Rightarrow> nat \<times> store" where
  "alloc_list xs s = (length (list_objs s), s\<lparr>list_objs := list_objs s @ [xs]\<rparr>)"

definition alloc_dict :: "(string \<times> nat) list \<Rightarrow> store \<Rightarrow> nat \<times> store" where
  "alloc_dict d s = (length (dict_objs s), s\<lparr>dict_objs := dict_objs s @ [d]\<rparr>)"

definition dict_store :: "nat \<Rightarrow> string \<Rightarrow> nat \<Rightarrow> store \<Rightarrow> store" where
  "dict_store a key v s = s\<lparr>dict_objs := (dict_objs s)[a := AList.update key v (dict_at s a)]\<rparr>"

text \<open>
  \<open>refine_cls\<close>: \<open>new_classes.copy()\<close> and the concatenation each create a list; the
  second component of the result is the object \<open>meta['CLASSES']\<close> itself.
\<close>

definition refine_cls_store :: "store \<Rightarrow> train_cfg_refs \<Rightarrow> meta_refs \<Rightarrow> string
    \<Rightarrow> store \<times> (error + nat \<times> nat)" where
  "refine_cls_store s train_cfg meta adapt_type =
     (case ref_new_classes train_cfg of
        None \<Rightarrow> (s, Inl (KeyError ''new_classes''))
      | Some new_classes \<Rightarrow>
          (case ref_CLASSES meta of
             None \<Rightarrow> (s, Inl (KeyError ''CLASSES''))
           | Some old_classes \<Rightarrow>
               if adapt_type = ''REPLACE'' then
                 (if length (list_at s new_classes) = 0
                  then (s, Inl (ValueError ''Data classes should contain at least one class!''))
                  else (case alloc_list (list_at s new_classes) s of
                          (dst_classes, s') \<Rightarrow> (s', Inr (dst_classes, old_classes))))
               else if adapt_type = ''MERGE'' then
                 (case alloc_list (list_at s old_classes
                         @ [cls \<leftarrow> list_at s new_classes. cls \<notin> set (list_at s old_classes)]) s of
                    (dst_classes, s') \<Rightarrow> (s', Inr (dst_classes, old_classes)))
               else (s, Inl (unsupported adapt_type))))"

text \<open>
  \<open>copy.deepcopy\<close> of a task set: a new dict with a copy of every class list, where a
  list that occurs under several tasks is copied once (the memo of \<open>deepcopy\<close>).
\<close>

fun deepcopy_items :: "(nat \<times> nat) list \<Rightarrow> (string \<times> nat) list \<Rightarrow> store
    \<Rightarrow> (string \<times> nat) list \<times> store" where
  "deepcopy_items memo [] s = ([], s)"
| "deepcopy_items memo ((key, v) # items) s =
     (case map_of memo v of
        Some y \<Rightarrow>
          (case deepcopy_items memo items s of (items', s') \<Rightarrow> ((key, y) # items', s'))
      | None \<Rightarrow>
          (case alloc_list (list_at s v) s of
             (y, s1) \<Rightarrow>
               (case deepcopy_items ((v, y) # memo) items s1 of
                  (items', s') \<Rightarrow> ((key, y) # items', s'))))"

definition deepcopy :: "nat \<Rightarrow> store \<Rightarrow> nat \<times> store" where
  "deepcopy x s = (case deepcopy_items [] (dict_at s x) s of (items', s') \<Rightarrow> alloc_dict items' s')"

text \<open>One round, and the whole, of the loop over \<open>new_tasks.items()\<close>.\<close>

definition merge_task_store :: "nat \<Rightarrow> string \<times> nat \<Rightarrow> store \<Rightarrow> store" where
  "merge_task_store model_tasks tc s =
     (case tc of (task, cls) \<Rightarrow>
        (case map_of (dict_at s model_tasks) task of
           Some cur \<Rightarrow>
             if list_at s cur \<noteq> [] then
               (case alloc_list (list_at s cur @ [c \<leftarrow> list_at s cls. c \<notin> set (list_at s cur)]) s of
                  (merged, s') \<Rightarrow> dict_store model_tasks task merged s')
             else dict_store model_tasks task cls s
         | None \<Rightarrow> dict_store model_tasks task cls s))"

fun merge_tasks_store :: "nat \<Rightarrow> (string \<times> nat) list \<Rightarrow> store \<Rightarrow> store" where
  "merge_tasks_store model_tasks [] s = s"
| "merge_tasks_store model_tasks (tc # items) s =
     merge_tasks_store model_tasks items (merge_task_store model_tasks tc s)"

text \<open>
  \<open>refine_tasks\<close>: under REPLACE the result is the object \<open>train_cfg['tasks']\<close> itself
  and a new empty dict; under MERGE a deep copy of \<open>meta['tasks']\<close>, updated in the loop.
\<close>

definition refine_tasks_store :: "store \<Rightarrow> train_cfg_refs \<Rightarrow> meta_refs \<Rightarrow> string
    \<Rightarrow> store \<times> (error + nat \<times> nat)" where
  "refine_tasks_store s train_cfg meta adapt_type =
     (case ref_tasks train_cfg of
        None \<Rightarrow> (s, Inl (KeyError ''tasks''))
      | Some new_tasks \<Rightarrow>
          if adapt_type = ''REPLACE'' then
            (case alloc_dict [] s of (old_tasks, s') \<Rightarrow> (s', Inr (new_tasks, old_tasks)))
          else if adapt_type = ''MERGE'' then
            (case ref_meta_tasks meta of
               None \<Rightarrow> (s, Inl (KeyError ''tasks''))
             | Some old_tasks \<Rightarrow>
                 (case deepcopy old_tasks s of
                    (model_tasks, s1) \<Rightarrow>
                      (merge_tasks_store model_tasks (dict_at s1 new_tasks) s1,
                       Inr (model_tasks, old_tasks))))
          else (s, Inl (unsupported adapt_type)))"

text \<open>
  The task set that a dict of the store stands for; a store that differs from another one
  only in the dict at an address and in the lists that dict holds (any mutation of that
  task set); and a store that still has every object of another one, unchanged, at its
  address.
\<close>

definition task_set_at :: "store \<Rightarrow> nat \<Rightarrow> task_set" where
  "task_set_at s a = map (\<lambda>(task, cls). (task, list_at s cls)) (dict_at s a)"

definition only_task_set_changed :: "store \<Rightarrow> nat \<Rightarrow> store \<Rightarrow> bool" where
  "only_task_set_changed s a s' \<longleftrightarrow>
     (\<forall>d < length (dict_objs s). d \<noteq> a \<longrightarrow> dict_at s' d = dict_at s d)
   \<and> (\<forall>l < length (list_objs s). l \<notin> snd ` set (dict_at s a) \<longrightarrow> list_at s' l = list_at s l)"

definition preserves :: "store \<Rightarrow> store \<Rightarrow> bool" where
  "preserves s s' \<longleftrightarrow> (\<exists>ls. list_objs s' = list_objs s @ ls) \<and> (\<exists>ds. dict_objs s' = dict_objs s @ ds)"

text \<open>
  The train config and the metadata that a store and their addresses stand for, as the
  model on values takes them; a task set whose addresses are all allocated; and a store
  whose lists are still those of another one, possibly followed by new ones.
\<close>

definition train_cfg_at :: "store \<Rightarrow> train_cfg_refs \<Rightarrow> train_cfg" where
  "train_cfg_at s train_cfg =
     \<lparr>cfg_new_classes = map_option (list_at s) (ref_new_classes train_cfg),
      cfg_tasks = map_option (task_set_at s) (ref_tasks train_cfg)\<rparr>"

definition model_meta_at :: "store \<Rightarrow> meta_refs \<Rightarrow> model_meta" where
  "model_meta_at s meta =
     \<lparr>meta_CLASSES = map_option (list_at s) (ref_CLASSES meta),
      meta_tasks = map_option (task_set_at s) (ref_meta_tasks meta)\<rparr>"

definition valid_task_set :: "store \<Rightarrow> nat \<Rightarrow> bool" where
  "valid_task_set s a \<longleftrightarrow>
     a < length (dict_objs s) \<and> (\<forall>l \<in> snd ` set (dict_at s a). l < length (list_objs s))"

definition extends_lists :: "store \<Rightarrow> store \<Rightarrow> bool" where
  "extends_lists s s' \<longleftrightarrow> (\<exists>ls. list_objs s' = list_objs s @ ls)"

section \<open>Properties of the refiner\<close>

text \<open>
  C3. With adapt type REPLACE and both keys present, \<open>refine_cls\<close> raises the
  \<open>ValueError\<close> (the specification's validation error) exactly when \<open>new_classes\<close> is
  empty; when it is not empty the destination list is \<open>new_classes\<close> and the old class
  list of the metadata is returned unchanged.
\<close>

theorem refine_cls_replace:
  assumes "cfg_new_classes train_cfg = Some new_classes"
    and "meta_CLASSES meta = Some old_classes"
  shows "((\<exists>msg. refine_cls train_cfg meta ''REPLACE'' = Inl (ValueError msg)) \<longleftrightarrow> new_classes = [])
       \<and> (new_classes \<noteq> [] \<longrightarrow>
            refine_cls train_cfg meta ''REPLACE'' = Inr (new_classes, old_classes))"
  using assms by (simp add: refine_cls_def)

theorem refine_cls_replace_witness:
  "refine_cls \<lparr>cfg_new_classes = Some [''x''], cfg_tasks = None\<rparr>
              \<lparr>meta_CLASSES = Some [''a''], meta_tasks = None\<rparr> ''REPLACE''
     = Inr ([''x''], [''a''])
   \<and> (\<exists>msg. refine_cls \<lparr>cfg_new_classes = Some [], cfg_tasks = None\<rparr>
              \<lparr>meta_CLASSES = Some [''a''], meta_tasks = None\<rparr> ''REPLACE''
          = Inl (ValueError msg))"
  using refine_cls_replace [of "\<lparr>cfg_new_classes = Some [''x''], cfg_tasks = None\<rparr>" "[''x'']"
      "\<lparr>meta_CLASSES = Some [''a''], meta_tasks = None\<rparr>" "[''a'']"]
    refine_cls_replace [of "\<lparr>cfg_new_classes = Some [], cfg_tasks = None\<rparr>" "[]"
      "\<lparr>meta_CLASSES = Some [''a''], meta_tasks = None\<rparr>" "[''a'']"]
  by simp

text \<open>
  C4. With adapt type MERGE the destination list is the old classes in their order, followed
  by the new classes that are not among the old ones, in the order of \<open>new_classes\<close>; old
  \<open>[a, b]\<close> and new \<open>[b, c]\<close> give \<open>[a, b, c]\<close>.
\<close>

theorem refine_cls_merge:
  "(cfg_new_classes train_cfg = Some new_classes \<and> meta_CLASSES meta = Some old_classes \<longrightarrow>
      refine_cls train_cfg meta ''MERGE''
        = Inr (old_classes @ filter (\<lambda>c. c \<notin> set old_classes) new_classes, old_classes))
   \<and> refine_cls \<lparr>cfg_new_classes = Some [''b'', ''c''], cfg_tasks = None\<rparr>
        \<lparr>meta_CLASSES = Some [''a'', ''b''], meta_tasks = None\<rparr> ''MERGE''
        = Inr ([''a'', ''b'', ''c''], [''a'', ''b''])"
  by (simp add: refine_cls_def)

theorem refine_cls_merge_witness:
  "refine_cls \<lparr>cfg_new_classes = Some [''d'', ''a'', ''c''], cfg_tasks = None\<rparr>
        \<lparr>meta_CLASSES = Some [''a'', ''b''], meta_tasks = None\<rparr> ''MERGE''
     = Inr ([''a'', ''b'', ''d'', ''c''], [''a'', ''b''])"
  using refine_cls_merge [of "\<lparr>cfg_new_classes = Some [''d'', ''a'', ''c''], cfg_tasks = None\<rparr>"
      "[''d'', ''a'', ''c'']" "\<lparr>meta_CLASSES = Some [''a'', ''b''], meta_tasks = None\<rparr>" "[''a'', ''b'']"]
  by simp

lemma unsupported_neq_key [simp]:
  "length k < 41 \<Longrightarrow> KeyError k \<noteq> unsupported a"
proof
  assume short: "length k < 41" and "KeyError k = unsupported a"
  then have "length k = length (a @ '' is not supported for task_adapt options!'')"
    by (simp add: unsupported_def)
  with short show False by simp
qed

text \<open>
  C7. For every adapt type other than REPLACE and MERGE both refiners fail with a
  \<open>KeyError\<close> (the specification's configuration error); with both keys present it is
  the error of the final \<open>else\<close> branch, which carries the adapt type. For REPLACE and
  MERGE neither refiner ever raises that error, and with the keys they subscript present
  they raise no \<open>KeyError\<close> at all.
\<close>

theorem refine_unsupported_adapt_type:
  "(adapt_type \<noteq> ''REPLACE'' \<and> adapt_type \<noteq> ''MERGE'' \<longrightarrow>
      (\<exists>msg. refine_cls train_cfg meta adapt_type = Inl (KeyError msg))
    \<and> (\<exists>msg. refine_tasks train_cfg meta adapt_type = Inl (KeyError msg))
    \<and> (cfg_new_classes train_cfg \<noteq> None \<and> meta_CLASSES meta \<noteq> None \<longrightarrow>
          refine_cls train_cfg meta adapt_type = Inl (unsupported adapt_type))
    \<and> (cfg_tasks train_cfg \<noteq> None \<longrightarrow>
          refine_tasks train_cfg meta adapt_type = Inl (unsupported adapt_type)))
   \<and> (adapt_type = ''REPLACE'' \<or> adapt_type = ''MERGE'' \<longrightarrow>
      (\<forall>a. refine_cls train_cfg meta adapt_type \<noteq> Inl (unsupported a))
    \<and> (\<forall>a. refine_tasks train_cfg meta adapt_type \<noteq> Inl (unsupported a))
    \<and> (cfg_new_classes train_cfg \<noteq> None \<and> meta_CLASSES meta \<noteq> None \<longrightarrow>
          (\<forall>msg. refine_cls train_cfg meta adapt_type \<noteq> Inl (KeyError msg)))
    \<and> (cfg_tasks train_cfg \<noteq> None \<and> meta_tasks meta \<noteq> None \<longrightarrow>
          (\<forall>msg. refine_tasks train_cfg meta adapt_type \<noteq> Inl (KeyError msg))))"
  by (auto simp: refine_cls_def refine_tasks_def unsupported_def split: option.splits)

theorem refine_unsupported_adapt_type_witness:
  "refine_cls \<lparr>cfg_new_classes = Some [''x''], cfg_tasks = Some [(''t'', [''x''])]\<rparr>
      \<lparr>meta_CLASSES = Some [''a''], meta_tasks = Some [(''t'', [''a''])]\<rparr> ''APPEND''
     = Inl (unsupported ''APPEND'')
   \<and> refine_tasks \<lparr>cfg_new_classes = Some [''x''], cfg_tasks = Some [(''t'', [''x''])]\<rparr>
      \<lparr>meta_CLASSES = Some [''a''], meta_tasks = Some [(''t'', [''a''])]\<rparr> ''APPEND''
     = Inl (unsupported ''APPEND'')
   \<and> (\<forall>msg. refine_tasks \<lparr>cfg_new_classes = Some [''x''], cfg_tasks = Some [(''t'', [''x''])]\<rparr>
      \<lparr>meta_CLASSES = Some [''a''], meta_tasks = Some [(''t'', [''a''])]\<rparr> ''MERGE''
     \<noteq> Inl (KeyError msg))"
  using refine_unsupported_adapt_type [of "''APPEND''"
      "\<lparr>cfg_new_classes = Some [''x''], cfg_tasks = Some [(''t'', [''x''])]\<rparr>"
      "\<lparr>meta_CLASSES = Some [''a''], meta_tasks = Some [(''t'', [''a''])]\<rparr>"]
    refine_unsupported_adapt_type [of "''MERGE''"
      "\<lparr>cfg_new_classes = Some [''x''], cfg_tasks = Some [(''t'', [''x''])]\<rparr>"
      "\<lparr>meta_CLASSES = Some [''a''], meta_tasks = Some [(''t'', [''a''])]\<rparr>"]
  by simp

section \<open>Properties of the class-name mapper and of the mixing\<close>

lemma position_neg: "position n xs < 0 \<longleftrightarrow> position n xs = - 1"
  by (induction xs) (auto simp: Let_def)

lemma position_ge: "- 1 \<le> position n xs"
  by (induction xs) (auto simp: Let_def)

lemma position_absent: "position n xs = - 1 \<longleftrightarrow> n \<notin> set xs"
proof (induction xs)
  case Nil then show ?case by simp
next
  case (Cons x xs)
  have "- 1 \<le> position n xs" by (rule position_ge)
  with Cons show ?case by (auto simp: Let_def)
qed

lemma position_present:
  "n \<in> set xs \<Longrightarrow> 0 \<le> position n xs \<and> nat (position n xs) < length xs \<and> xs ! nat (position n xs) = n"
proof (induction xs)
  case Nil then show ?case by simp
next
  case (Cons x xs)
  show ?case
  proof (cases "x = n")
    case True then show ?thesis by simp
  next
    case False
    with Cons.prems have "n \<in> set xs" by simp
    from Cons.IH[OF this] have ih: "0 \<le> position n xs" "nat (position n xs) < length xs" "xs ! nat (position n xs) = n" by auto
    then show ?thesis using False by (simp add: Let_def nat_add_distrib)
  qed
qed

lemma position_lt: "position n xs < int (length xs)"
  by (induction xs) (auto simp: Let_def)

lemma position_distinct: "distinct xs \<Longrightarrow> i < length xs \<Longrightarrow> position (xs ! i) xs = int i"
proof (induction xs arbitrary: i)
  case Nil then show ?case by simp
next
  case (Cons x xs)
  show ?case
  proof (cases i)
    case 0 then show ?thesis by simp
  next
    case (Suc j)
    with Cons.prems have j: "j < length xs" and dx: "distinct xs" and nx: "x \<notin> set xs" by auto
    from j nx have "xs ! j \<noteq> x" by (metis nth_mem)
    with Cons.IH[OF dx j] Suc show ?thesis by (simp add: Let_def)
  qed
qed

text \<open>
  C1. \<open>map_class_names A B\<close> has one entry per name of \<open>B\<close>; entry \<open>i\<close> is \<open>-1\<close>
  exactly when \<open>B ! i\<close> is not in \<open>A\<close>, and otherwise is an index of \<open>A\<close> that holds
  \<open>B ! i\<close>. The function is pure, and entry \<open>i\<close> is the same for every destination list
  with the same name at \<open>i\<close>.
\<close>

theorem map_class_names_spec:
  "length (map_class_names A B) = length B
   \<and> (\<forall>i < length B.
        (map_class_names A B ! i = - 1 \<longleftrightarrow> B ! i \<notin> set A)
      \<and> (B ! i \<in> set A \<longrightarrow>
           0 \<le> map_class_names A B ! i \<and> nat (map_class_names A B ! i) < length A
         \<and> A ! nat (map_class_names A B ! i) = B ! i)
      \<and> (\<forall>B'. i < length B' \<and> B' ! i = B ! i \<longrightarrow> map_class_names A B' ! i = map_class_names A B ! i))"
  by (simp add: map_class_names_def position_absent position_present)

theorem map_class_names_spec_witness:
  "map_class_names [''person'', ''car'', ''tree''] [''tree'', ''sky'', ''person''] ! 1 = - 1
   \<and> [''person'', ''car'', ''tree'']
        ! nat (map_class_names [''person'', ''car'', ''tree''] [''tree'', ''sky'', ''person''] ! 2)
      = ''person''"
proof -
  let ?A = "[''person'', ''car'', ''tree'']" and ?B = "[''tree'', ''sky'', ''person'']"
  note entries = conjunct2 [OF map_class_names_spec [of ?A ?B], rule_format]
  have i1: "1 < length ?B" and i2: "2 < length ?B" by simp_all
  have absent: "?B ! 1 \<notin> set ?A" and present: "?B ! 2 \<in> set ?A" by simp_all
  from conjunct1 [OF entries [OF i1]] absent
  have "map_class_names ?A ?B ! 1 = - 1" by (rule iffD2)
  moreover from conjunct1 [OF conjunct2 [OF entries [OF i2]]] present
  have "?A ! nat (map_class_names ?A ?B ! 2) = ?B ! 2" by blast
  then have "?A ! nat (map_class_names ?A ?B ! 2) = ''person''" by simp
  ultimately show ?thesis by (rule conjI)
qed

lemma anchor_row_inj:
  fixes a :: nat
  assumes "m < n" "m' < n" "a * n + m = a' * n + m'"
  shows "a = a' \<and> m = m'"
proof -
  have "0 < n" using assms(1) by simp
  then have "(a * n + m) div n = a" "(a' * n + m') div n = a'" using assms(1,2) by simp_all
  with assms(3) have "a = a'" by metis
  with assms(3) show ?thesis by simp
qed

lemma mix_classes_ok:
  assumes "\<forall>(m, c) \<in> set mc. a * nm + m < length mp \<and> (0 \<le> c \<longrightarrow> a * nc + nat c < length cp)"
    and "distinct (map fst mc)"
  shows "\<exists>r. mix_classes a nc nm cp mc mp = Inr r \<and> length r = length mp
      \<and> (\<forall>(m, c) \<in> set mc. 0 \<le> c \<longrightarrow> r ! (a * nm + m) = cp ! (a * nc + nat c))
      \<and> (\<forall>j. (\<forall>(m, c) \<in> set mc. 0 \<le> c \<longrightarrow> j \<noteq> a * nm + m) \<longrightarrow> r ! j = mp ! j)"
  using assms
proof (induction mc arbitrary: mp)
  case Nil then show ?case by simp
next
  case (Cons p mc)
  obtain m c where p: "p = (m, c)" by (cases p)
  show ?case
  proof (cases "0 \<le> c")
    case False
    from Cons.prems have pre: "\<forall>(m, c) \<in> set mc. a * nm + m < length mp \<and> (0 \<le> c \<longrightarrow> a * nc + nat c < length cp)"
      "distinct (map fst mc)" by auto
    from Cons.IH[OF pre] False p show ?thesis by auto
  next
    case True
    let ?mp = "mp[a * nm + m := cp ! (a * nc + nat c)]"
    from Cons.prems p True have inr: "a * nm + m < length mp" "a * nc + nat c < length cp" by auto
    from Cons.prems have pre: "\<forall>(m, c) \<in> set mc. a * nm + m < length ?mp \<and> (0 \<le> c \<longrightarrow> a * nc + nat c < length cp)"
      "distinct (map fst mc)" by auto
    from Cons.IH[OF pre] obtain r where r: "mix_classes a nc nm cp mc ?mp = Inr r" "length r = length mp"
      "\<forall>(m, c) \<in> set mc. 0 \<le> c \<longrightarrow> r ! (a * nm + m) = cp ! (a * nc + nat c)"
      "\<forall>j. (\<forall>(m, c) \<in> set mc. 0 \<le> c \<longrightarrow> j \<noteq> a * nm + m) \<longrightarrow> r ! j = ?mp ! j" by auto
    from Cons.prems p have notin: "m \<notin> fst ` set mc" by auto
    have "\<forall>(m', c') \<in> set mc. a * nm + m \<noteq> a * nm + m'" using notin by force
    with r(4) have "r ! (a * nm + m) = ?mp ! (a * nm + m)" by blast
    with inr have head: "r ! (a * nm + m) = cp ! (a * nc + nat c)" by simp
    have rest: "\<forall>j. (\<forall>(m, c) \<in> set (p # mc). 0 \<le> c \<longrightarrow> j \<noteq> a * nm + m) \<longrightarrow> r ! j = mp ! j"
      using r(4) p True by auto
    from r(1,2,3) head rest p True inr show ?thesis by auto
  qed
qed

lemma mix_anchors_ok:
  assumes len: "length model2chkpt = nm"
    and rng: "\<forall>c \<in> set model2chkpt. c < int nc"
    and fit: "\<forall>a \<in> set anchors. (a + 1) * nm \<le> length mp \<and> (a + 1) * nc \<le> length cp"
    and dist: "distinct anchors"
  shows "\<exists>r. mix_anchors nc nm cp model2chkpt anchors mp = Inr r \<and> length r = length mp
      \<and> (\<forall>a \<in> set anchors. \<forall>m < nm. 0 \<le> model2chkpt ! m \<longrightarrow>
            r ! (a * nm + m) = cp ! (a * nc + nat (model2chkpt ! m)))
      \<and> (\<forall>j. (\<forall>a \<in> set anchors. \<forall>m < nm. 0 \<le> model2chkpt ! m \<longrightarrow> j \<noteq> a * nm + m)
            \<longrightarrow> r ! j = mp ! j)"
  using fit dist
proof (induction anchors arbitrary: mp)
  case Nil then show ?case by simp
next
  case (Cons a anchors)
  let ?mc = "enumerate 0 model2chkpt"
  have in_mc: "\<And>m c. (m, c) \<in> set ?mc \<longleftrightarrow> m < nm \<and> c = model2chkpt ! m"
    using len by (auto simp: in_set_enumerate_eq)
  from Cons.prems have a_fit: "(a + 1) * nm \<le> length mp" "(a + 1) * nc \<le> length cp" by auto
  have pre1: "\<forall>(m, c) \<in> set ?mc. a * nm + m < length mp \<and> (0 \<le> c \<longrightarrow> a * nc + nat c < length cp)"
  proof (clarify, intro conjI impI)
    fix m c assume mc: "(m, c) \<in> set ?mc"
    then have m: "m < nm" and c: "c = model2chkpt ! m" by (simp_all add: in_mc)
    from m a_fit(1) show "a * nm + m < length mp" by simp
    assume "0 \<le> c"
    moreover from m c len rng have "c < int nc" by auto
    ultimately have "nat c < nc" by simp
    with a_fit(2) show "a * nc + nat c < length cp" by simp
  qed
  have pre2: "distinct (map fst ?mc)" by simp
  from mix_classes_ok[OF pre1 pre2] obtain r1 where r1:
    "mix_classes a nc nm cp ?mc mp = Inr r1" "length r1 = length mp"
    "\<forall>(m, c) \<in> set ?mc. 0 \<le> c \<longrightarrow> r1 ! (a * nm + m) = cp ! (a * nc + nat c)"
    "\<forall>j. (\<forall>(m, c) \<in> set ?mc. 0 \<le> c \<longrightarrow> j \<noteq> a * nm + m) \<longrightarrow> r1 ! j = mp ! j"
    by blast
  from Cons.prems r1(2) have fit': "\<forall>a \<in> set anchors. (a + 1) * nm \<le> length r1 \<and> (a + 1) * nc \<le> length cp"
    and dist': "distinct anchors" and a_new: "a \<notin> set anchors" by auto
  from Cons.IH[OF fit' dist'] obtain r where r:
    "mix_anchors nc nm cp model2chkpt anchors r1 = Inr r" "length r = length r1"
    "\<forall>a \<in> set anchors. \<forall>m < nm. 0 \<le> model2chkpt ! m \<longrightarrow>
        r ! (a * nm + m) = cp ! (a * nc + nat (model2chkpt ! m))"
    "\<forall>j. (\<forall>a \<in> set anchors. \<forall>m < nm. 0 \<le> model2chkpt ! m \<longrightarrow> j \<noteq> a * nm + m)
        \<longrightarrow> r ! j = r1 ! j"
    by blast
  have head: "r ! (a * nm + m) = cp ! (a * nc + nat (model2chkpt ! m))"
    if m: "m < nm" and pos: "0 \<le> model2chkpt ! m" for m
  proof -
    have "\<forall>a' \<in> set anchors. \<forall>m' < nm. 0 \<le> model2chkpt ! m' \<longrightarrow> a * nm + m \<noteq> a' * nm + m'"
      using anchor_row_inj[OF m] a_new by blast
    with r(4) have "r ! (a * nm + m) = r1 ! (a * nm + m)" by blast
    moreover from m have "(m, model2chkpt ! m) \<in> set ?mc" by (simp add: in_mc)
    with r1(3) pos have "r1 ! (a * nm + m) = cp ! (a * nc + nat (model2chkpt ! m))" by blast
    ultimately show ?thesis by simp
  qed
  have frame: "r ! j = mp ! j"
    if "\<forall>a' \<in> set (a # anchors). \<forall>m < nm. 0 \<le> model2chkpt ! m \<longrightarrow> j \<noteq> a' * nm + m" for j
  proof -
    from that r(4) have "r ! j = r1 ! j" by simp
    moreover from that have "\<forall>(m, c) \<in> set ?mc. 0 \<le> c \<longrightarrow> j \<noteq> a * nm + m"
      by (auto simp: in_mc)
    with r1(4) have "r1 ! j = mp ! j" by blast
    ultimately show ?thesis by simp
  qed
  from r1(1) r(1) have "mix_anchors nc nm cp model2chkpt (a # anchors) mp = Inr r" by simp
  moreover from r(2) r1(2) have "length r = length mp" by simp
  ultimately show ?case using head r(3) frame by auto
qed

lemma anchors_fit:
  fixes a :: nat
  assumes "a < min (lc div nc) (lm div nm)"
  shows "(a + 1) * nm \<le> lm \<and> (a + 1) * nc \<le> lc"
proof -
  from assms have "a + 1 \<le> lm div nm" "a + 1 \<le> lc div nc" by simp_all
  then have "(a + 1) * nm \<le> (lm div nm) * nm" "(a + 1) * nc \<le> (lc div nc) * nc"
    by (simp_all only: mult_le_mono1)
  moreover have "(lm div nm) * nm \<le> lm" "(lc div nc) * nc \<le> lc" by simp_all
  ultimately show ?thesis by linarith
qed

lemma mix_param_spec:
  assumes len: "length model2chkpt = num_model_classes"
    and rng: "\<forall>c \<in> set model2chkpt. c < int num_chkpt_classes"
    and pos: "0 < num_chkpt_classes" "0 < num_model_classes"
  shows "\<exists>mixed. mix_param model2chkpt num_chkpt_classes num_model_classes chkpt_param model_param = Inr mixed
      \<and> length mixed = length model_param
      \<and> (\<forall>a m. a < min (length chkpt_param div num_chkpt_classes)
                         (length model_param div num_model_classes) \<and> m < num_model_classes \<longrightarrow>
            (0 \<le> model2chkpt ! m \<longrightarrow>
               mixed ! (a * num_model_classes + m)
                 = chkpt_param ! (a * num_chkpt_classes + nat (model2chkpt ! m)))
          \<and> (model2chkpt ! m < 0 \<longrightarrow>
               mixed ! (a * num_model_classes + m) = model_param ! (a * num_model_classes + m)))
      \<and> (\<forall>j. min (length chkpt_param div num_chkpt_classes)
                   (length model_param div num_model_classes) * num_model_classes \<le> j \<longrightarrow>
            mixed ! j = model_param ! j)"
proof -
  let ?n = "min (length chkpt_param div num_chkpt_classes) (length model_param div num_model_classes)"
  have fit: "\<forall>a \<in> set [0..<?n]. (a + 1) * num_model_classes \<le> length model_param
      \<and> (a + 1) * num_chkpt_classes \<le> length chkpt_param"
    using anchors_fit[of _ "length chkpt_param" num_chkpt_classes "length model_param" num_model_classes]
    by simp
  from mix_anchors_ok[OF len rng fit] obtain r where r:
    "mix_anchors num_chkpt_classes num_model_classes chkpt_param model2chkpt [0..<?n] model_param = Inr r"
    "length r = length model_param"
    "\<forall>a \<in> set [0..<?n]. \<forall>m < num_model_classes. 0 \<le> model2chkpt ! m \<longrightarrow>
        r ! (a * num_model_classes + m) = chkpt_param ! (a * num_chkpt_classes + nat (model2chkpt ! m))"
    "\<forall>j. (\<forall>a \<in> set [0..<?n]. \<forall>m < num_model_classes. 0 \<le> model2chkpt ! m \<longrightarrow>
        j \<noteq> a * num_model_classes + m) \<longrightarrow> r ! j = model_param ! j"
    by auto
  have eq: "mix_param model2chkpt num_chkpt_classes num_model_classes chkpt_param model_param = Inr r"
    using r(1) pos by (simp add: mix_param_def Let_def)
  have copied: "r ! (a * num_model_classes + m) = chkpt_param ! (a * num_chkpt_classes + nat (model2chkpt ! m))"
    if "a < ?n" "m < num_model_classes" "0 \<le> model2chkpt ! m" for a m
    using r(3) that by simp
  have kept: "r ! (a * num_model_classes + m) = model_param ! (a * num_model_classes + m)"
    if a: "a < ?n" and m: "m < num_model_classes" and neg: "model2chkpt ! m < 0" for a m
  proof -
    have "\<forall>a' \<in> set [0..<?n]. \<forall>m' < num_model_classes. 0 \<le> model2chkpt ! m' \<longrightarrow>
        a * num_model_classes + m \<noteq> a' * num_model_classes + m'"
      using anchor_row_inj[OF m] neg by (metis not_le)
    with r(4) show ?thesis by blast
  qed
  have beyond: "r ! j = model_param ! j" if j: "?n * num_model_classes \<le> j" for j
  proof -
    have "j \<noteq> a * num_model_classes + m" if "a < ?n" "m < num_model_classes" for a m
    proof -
      from that have "a * num_model_classes + m < (a + 1) * num_model_classes" by simp
      also from that have "\<dots> \<le> ?n * num_model_classes" by (simp only: mult_le_mono1 Suc_leI Suc_eq_plus1[symmetric])
      finally show ?thesis using j by simp
    qed
    with r(4) show ?thesis by simp
  qed
  from eq r(2) copied kept beyond show ?thesis by blast
qed

text \<open>
  C2. Let the class mapping have one entry per model class (background included), each
  entry negative or an index of a checkpoint class, as the hook uses it. Then mixing
  succeeds, and for every anchor below the smaller of the two anchor counts the destination
  row \<open>a * num_model_classes + m\<close> is the source row \<open>a * num_chkpt_classes + c\<close> when
  the mapping value \<open>c\<close> of \<open>m\<close> is non-negative and keeps its initial value when it is
  negative; every row of an anchor group beyond that minimum keeps its initial value.
\<close>

theorem mix_param_rows:
  assumes len: "length model2chkpt = num_model_classes"
    and rng: "\<forall>c \<in> set model2chkpt. c < int num_chkpt_classes"
    and pos: "0 < num_chkpt_classes" "0 < num_model_classes"
  shows "\<exists>mixed. mix_param model2chkpt num_chkpt_classes num_model_classes chkpt_param model_param = Inr mixed
      \<and> length mixed = length model_param
      \<and> (\<forall>a m. a < min (length chkpt_param div num_chkpt_classes)
                         (length model_param div num_model_classes) \<and> m < num_model_classes \<longrightarrow>
            (0 \<le> model2chkpt ! m \<longrightarrow>
               mixed ! (a * num_model_classes + m)
                 = chkpt_param ! (a * num_chkpt_classes + nat (model2chkpt ! m)))
          \<and> (model2chkpt ! m < 0 \<longrightarrow>
               mixed ! (a * num_model_classes + m) = model_param ! (a * num_model_classes + m)))
      \<and> (\<forall>j. min (length chkpt_param div num_chkpt_classes)
                   (length model_param div num_model_classes) * num_model_classes \<le> j \<longrightarrow>
            mixed ! j = model_param ! j)"
  using assms by (rule mix_param_spec)

theorem mix_param_rows_witness:
  "\<exists>mixed. mix_param [1, - 1, 0] 2 3 [10, 11, 12, 13] [0, 0, 0, 0, 0, 0, 0 :: nat] = Inr mixed
     \<and> mixed ! 0 = 11 \<and> mixed ! 1 = 0 \<and> mixed ! 5 = 12 \<and> mixed ! 6 = 0"
proof -
  have h: "length [1, - 1, 0 :: int] = 3" "\<forall>c \<in> set [1, - 1, 0 :: int]. c < int 2"
    "0 < (2 :: nat)" "0 < (3 :: nat)" by simp_all
  from mix_param_rows [OF h, of "[10, 11, 12, 13]" "[0, 0, 0, 0, 0, 0, 0 :: nat]"]
  obtain mixed where m: "mix_param [1, - 1, 0] 2 3 [10, 11, 12, 13] [0, 0, 0, 0, 0, 0, 0 :: nat] = Inr mixed"
    and rows: "\<And>a m. a < 2 \<Longrightarrow> m < 3 \<Longrightarrow>
          (0 \<le> [1, - 1, 0 :: int] ! m \<longrightarrow>
             mixed ! (a * 3 + m) = [10, 11, 12, 13] ! (a * 2 + nat ([1, - 1, 0] ! m)))
        \<and> ([1, - 1, 0 :: int] ! m < 0 \<longrightarrow>
             mixed ! (a * 3 + m) = [0, 0, 0, 0, 0, 0, 0] ! (a * 3 + m))"
    and beyond: "\<And>j. 6 \<le> j \<Longrightarrow> mixed ! j = [0, 0, 0, 0, 0, 0, 0] ! j"
    by auto
  from rows [of 0 0] have "mixed ! 0 = 11" by simp
  moreover from rows [of 0 1] have "mixed ! 1 = 0" by simp
  moreover from rows [of 1 2] have "mixed ! 5 = 12" by simp
  moreover from beyond [of 6] have "mixed ! 6 = 0" by simp
  ultimately show ?thesis using m by blast
qed

lemma map_class_names_same:
  assumes "distinct xs"
  shows "map_class_names xs xs = map int [0..<length xs]"
  by (rule nth_equalityI) (simp_all add: map_class_names_def position_distinct[OF assms])

text \<open>
  C5. With the same unique class list on both sides the mapping of the mapper is the
  identity, and mixing returns the source block itself: for a destination block of the
  same row count that agrees with the source on the rows outside whole anchor groups
  (all rows when the block is mixed into itself, none when the row count is a multiple of
  the class count).
\<close>

theorem mix_identity:
  assumes dist: "distinct (classes @ [''__BG__''])"
    and n: "n = length (classes @ [''__BG__''])"
    and len: "length model_param = length chkpt_param"
    and rest: "\<forall>j < length chkpt_param. (length chkpt_param div n) * n \<le> j \<longrightarrow>
                 model_param ! j = chkpt_param ! j"
  shows "mix_param (map_class_names (classes @ [''__BG__'']) (classes @ [''__BG__'']))
           n n chkpt_param model_param = Inr chkpt_param"
proof -
  let ?map = "map_class_names (classes @ [''__BG__'']) (classes @ [''__BG__''])"
  have map_eq: "?map = map int [0..<n]" using map_class_names_same[OF dist] n by simp
  have npos: "0 < n" using n by simp
  have l: "length ?map = n" and r: "\<forall>c \<in> set ?map. c < int n" by (auto simp: map_eq)
  from mix_param_spec[OF l r npos npos, of chkpt_param model_param] len
  obtain mixed where mixed: "mix_param ?map n n chkpt_param model_param = Inr mixed"
    "length mixed = length chkpt_param"
    "\<forall>a m. a < length chkpt_param div n \<and> m < n \<longrightarrow>
        (0 \<le> ?map ! m \<longrightarrow> mixed ! (a * n + m) = chkpt_param ! (a * n + nat (?map ! m)))"
    "\<forall>j. (length chkpt_param div n) * n \<le> j \<longrightarrow> mixed ! j = model_param ! j"
    by auto
  have "mixed = chkpt_param"
  proof (rule nth_equalityI)
    show "length mixed = length chkpt_param" by (rule mixed(2))
  next
    fix j assume "j < length mixed"
    with mixed(2) have j: "j < length chkpt_param" by simp
    show "mixed ! j = chkpt_param ! j"
    proof (cases "(length chkpt_param div n) * n \<le> j")
      case True
      with mixed(4) rest j show ?thesis by simp
    next
      case False
      then have a: "j div n < length chkpt_param div n"
        using npos by (simp add: div_less_iff_less_mult not_le)
      have m: "j mod n < n" using npos by simp
      have "?map ! (j mod n) = int (j mod n)" using m by (simp add: map_eq)
      moreover from mixed(3) a m have "0 \<le> ?map ! (j mod n) \<longrightarrow>
          mixed ! (j div n * n + j mod n) = chkpt_param ! (j div n * n + nat (?map ! (j mod n)))"
        by blast
      ultimately have "mixed ! (j div n * n + j mod n) = chkpt_param ! (j div n * n + j mod n)"
        by simp
      then show ?thesis by simp
    qed
  qed
  with mixed(1) show ?thesis by simp
qed

theorem mix_identity_witness:
  "mix_param (map_class_names ([''cat'', ''dog''] @ [''__BG__'']) ([''cat'', ''dog''] @ [''__BG__'']))
     3 3 [1, 2, 3, 4, 5, 6, 7 :: nat] [0, 0, 0, 0, 0, 0, 7] = Inr [1, 2, 3, 4, 5, 6, 7]"
proof -
  let ?cp = "[1, 2, 3, 4, 5, 6, 7 :: nat]" and ?mp = "[0, 0, 0, 0, 0, 0, 7 :: nat]"
  have d: "distinct ([''cat'', ''dog''] @ [''__BG__''])"
    and n: "3 = length ([''cat'', ''dog''] @ [''__BG__''])"
    and l: "length ?mp = length ?cp" by simp_all
  have r: "\<forall>j < length ?cp. (length ?cp div 3) * 3 \<le> j \<longrightarrow> ?mp ! j = ?cp ! j"
  proof (intro allI impI)
    fix j assume "j < length ?cp" "(length ?cp div 3) * 3 \<le> j"
    then have "j = 6" by simp
    then show "?mp ! j = ?cp ! j" by simp
  qed
  from mix_identity [OF d n l r] show ?thesis .
qed

section \<open>Properties of the hook\<close>

lemma mix_level_frame:
  "mix_level md mp nc nm prefix level names found d = (found', err, d') \<Longrightarrow>
     dom d' = dom d \<and> (\<forall>k. (\<forall>name \<in> set names. k \<noteq> prefix @ format name (str level)) \<longrightarrow> d' k = d k)"
proof (induction names arbitrary: found d)
  case Nil then show ?case by simp
next
  case (Cons name names)
  show ?case
  proof (cases "md (format name (str level))")
    case None with Cons.prems show ?thesis by simp
  next
    case (Some model_param)
    note mdl = this
    show ?thesis
    proof (cases "d (prefix @ format name (str level))")
      case None with Cons.prems mdl show ?thesis by simp
    next
      case (Some chkpt_param)
      note ck = this
      show ?thesis
      proof (cases "mix_param mp nc nm chkpt_param model_param")
        case (Inl e) with Cons.prems mdl ck show ?thesis by simp
      next
        case (Inr mixed)
        with Cons.prems mdl ck
        have "mix_level md mp nc nm prefix level names True (d(prefix @ format name (str level) \<mapsto> mixed))
                = (found', err, d')" by simp
        from Cons.IH[OF this] ck show ?thesis by (auto simp: dom_def)
      qed
    qed
  qed
qed

lemma mix_levels_frame:
  "mix_levels md mp nc nm prefix names levels d = (d', err) \<Longrightarrow>
     dom d' = dom d
   \<and> (\<forall>k. (\<forall>level \<in> set levels. \<forall>name \<in> set names. k \<noteq> prefix @ format name (str level)) \<longrightarrow> d' k = d k)"
proof (induction levels arbitrary: d)
  case Nil then show ?case by simp
next
  case (Cons level levels)
  obtain found e d1 where lv: "mix_level md mp nc nm prefix level names False d = (found, e, d1)"
    by (cases "mix_level md mp nc nm prefix level names False d") auto
  note f1 = mix_level_frame[OF lv]
  show ?case
  proof (cases "e = None \<and> found")
    case False
    with Cons.prems lv have "d' = d1" by (auto split: option.splits if_splits)
    with f1 show ?thesis by simp
  next
    case True
    with Cons.prems lv have "mix_levels md mp nc nm prefix names levels d1 = (d', err)" by simp
    from Cons.IH[OF this] f1 show ?thesis by simp
  qed
qed

lemma digit_inj: "a < 10 \<Longrightarrow> b < 10 \<Longrightarrow> digit a = digit b \<Longrightarrow> a = b"
proof -
  assume a: "a < 10" and b: "b < 10" and eq: "digit a = digit b"
  have "distinct ''0123456789''" by simp
  moreover have "a < length ''0123456789''" "b < length ''0123456789''" using a b by simp_all
  ultimately show "a = b" using eq unfolding digit_def by (simp only: nth_eq_iff_index_eq)
qed

lemma digit_not_dot: "d < 10 \<Longrightarrow> digit d \<noteq> CHR ''.''"
proof -
  assume "d < 10"
  then have "d < length ''0123456789''" by simp
  then have "''0123456789'' ! d \<in> set ''0123456789''" by (rule nth_mem)
  then show ?thesis unfolding digit_def by auto
qed

lemma str_not_Nil: "str n \<noteq> []"
  by (subst str.simps) simp

lemma str_no_dot: "CHR ''.'' \<notin> set (str n)"
proof (induction n rule: str.induct)
  case (1 n)
  show ?case
  proof (cases "n < 10")
    case True
    then show ?thesis using digit_not_dot[of n] by (subst str.simps) auto
  next
    case False
    moreover have "n mod 10 < 10" by simp
    ultimately show ?thesis using 1 digit_not_dot[of "n mod 10"] by (subst str.simps) auto
  qed
qed

lemma str_inj: "str m = str n \<Longrightarrow> m = n"
proof (induction m arbitrary: n rule: str.induct)
  case (1 m)
  show ?case
  proof (cases "m < 10")
    case m: True
    show ?thesis
    proof (cases "n < 10")
      case True
      with m "1.prems" have "digit m = digit n" by (simp add: str.simps[of m] str.simps[of n])
      with m True show ?thesis by (rule digit_inj)
    next
      case False
      with m "1.prems" have "[digit m] = str (n div 10) @ [digit (n mod 10)]"
        by (simp add: str.simps[of m] str.simps[of n])
      then have "str (n div 10) = []" by simp
      then show ?thesis by (simp add: str_not_Nil)
    qed
  next
    case m: False
    show ?thesis
    proof (cases "n < 10")
      case True
      with m "1.prems" have "str (m div 10) @ [digit (m mod 10)] = [digit n]"
        by (simp add: str.simps[of m] str.simps[of n])
      then have "str (m div 10) = []" by simp
      then show ?thesis by (simp add: str_not_Nil)
    next
      case False
      with m "1.prems" have "str (m div 10) @ [digit (m mod 10)] = str (n div 10) @ [digit (n mod 10)]"
        by (simp add: str.simps[of m] str.simps[of n])
      then have s: "str (m div 10) = str (n div 10)" and d: "digit (m mod 10) = digit (n mod 10)"
        by simp_all
      from "1.IH"[OF m s] have q: "m div 10 = n div 10" .
      have "m mod 10 < 10" "n mod 10 < 10" by simp_all
      from digit_inj[OF this d] have r: "m mod 10 = n mod 10" .
      from q r show ?thesis by (metis div_mult_mod_eq)
    qed
  qed
qed

lemma format_param_name:
  "name \<in> set all_param_names \<Longrightarrow>
     \<exists>suffix. \<forall>arg. format name arg = ''bbox_head.cls_convs.'' @ arg @ CHR ''.'' # suffix"
  by (auto simp: all_param_names_def)

lemma param_names_subset: "set (param_names chkpt_dict prefix) \<subseteq> set all_param_names"
  by (auto simp: param_names_def all_param_names_def)

lemma level_of_key:
  assumes "s @ CHR ''.'' # suffix = s' @ CHR ''.'' # suffix'"
    and "CHR ''.'' \<notin> set s" "CHR ''.'' \<notin> set s'"
  shows "s = s'"
proof -
  have tw: "takeWhile (\<lambda>c. c \<noteq> CHR ''.'') (t @ CHR ''.'' # r) = t"
    if "CHR ''.'' \<notin> set t" for t r
  proof -
    from that have "\<And>x. x \<in> set t \<Longrightarrow> x \<noteq> CHR ''.''" by blast
    then have "takeWhile (\<lambda>c. c \<noteq> CHR ''.'') (t @ CHR ''.'' # r)
        = t @ takeWhile (\<lambda>c. c \<noteq> CHR ''.'') (CHR ''.'' # r)" by (rule takeWhile_append2)
    then show ?thesis by simp
  qed
  have "takeWhile (\<lambda>c. c \<noteq> CHR ''.'') (s @ CHR ''.'' # suffix) = s"
    using assms(2) by (rule tw)
  moreover have "takeWhile (\<lambda>c. c \<noteq> CHR ''.'') (s' @ CHR ''.'' # suffix') = s'"
    using assms(3) by (rule tw)
  ultimately show ?thesis using assms(1) by simp
qed

lemma key_inj:
  assumes "name \<in> set all_param_names" "name' \<in> set all_param_names"
    and "prefix @ format name (str l) = prefix @ format name' (str l')"
  shows "l = l'"
proof -
  from format_param_name[OF assms(1)] obtain suffix where
    f: "\<And>arg. format name arg = ''bbox_head.cls_convs.'' @ arg @ CHR ''.'' # suffix" by blast
  from format_param_name[OF assms(2)] obtain suffix' where
    f': "\<And>arg. format name' arg = ''bbox_head.cls_convs.'' @ arg @ CHR ''.'' # suffix'" by blast
  from assms(3) have "str l @ CHR ''.'' # suffix = str l' @ CHR ''.'' # suffix'"
    by (simp add: f f')
  then have "str l = str l'" using str_no_dot[of l] str_no_dot[of l'] by (rule level_of_key)
  then show ?thesis by (rule str_inj)
qed

lemma mix_level_missing:
  assumes "names = [] \<or> md (format (hd names) (str level)) = None
           \<or> d (prefix @ format (hd names) (str level)) = None"
  shows "mix_level md mp nc nm prefix level names False d = (False, None, d)"
  using assms by (cases names) (auto simp: Let_def split: option.splits)

lemma mix_levels_stop:
  assumes "names = [] \<or> md (format (hd names) (str l0)) = None
           \<or> d (prefix @ format (hd names) (str l0)) = None"
  shows "mix_levels md mp nc nm prefix names (ls @ l0 # ls') d
           = mix_levels md mp nc nm prefix names ls d"
  using assms
proof (induction ls arbitrary: d)
  case Nil
  then show ?case by (simp add: mix_level_missing)
next
  case (Cons level ls)
  obtain found e d1 where lv: "mix_level md mp nc nm prefix level names False d = (found, e, d1)"
    by (cases "mix_level md mp nc nm prefix level names False d") auto
  from mix_level_frame[OF lv] have "dom d1 = dom d" by simp
  then have "d1 k = None \<longleftrightarrow> d k = None" for k by (metis domIff)
  with Cons.prems have "names = [] \<or> md (format (hd names) (str l0)) = None
           \<or> d1 (prefix @ format (hd names) (str l0)) = None" by simp
  then have "mix_levels md mp nc nm prefix names (ls @ l0 # ls') d1
           = mix_levels md mp nc nm prefix names ls d1" by (rule Cons.IH[of d1])
  with lv show ?case by (simp split: option.splits)
qed

lemma mix_level_agree:
  assumes "\<forall>name \<in> set names. md (format name (str level)) = md' (format name (str level))
             \<and> d (prefix @ format name (str level)) = d' (prefix @ format name (str level))"
    and "mix_level md mp nc nm prefix level names found d = (f, e, r)"
    and "mix_level md' mp nc nm prefix level names found d' = (f', e', r')"
  shows "f = f' \<and> e = e' \<and> (\<forall>k. d k = d' k \<longrightarrow> r k = r' k)"
  using assms
proof (induction names arbitrary: found d d')
  case Nil then show ?case by simp
next
  case (Cons name names)
  let ?n = "format name (str level)"
  from Cons.prems(1) have same: "md ?n = md' ?n" "d (prefix @ ?n) = d' (prefix @ ?n)" by simp_all
  show ?case
  proof (cases "md ?n")
    case None
    with same have "md' ?n = None" by simp
    with None Cons.prems(2,3) show ?thesis by (simp add: Let_def)
  next
    case (Some model_param)
    note mdl = this
    with same have mdl': "md' ?n = Some model_param" by simp
    show ?thesis
    proof (cases "d (prefix @ ?n)")
      case None
      with same have "d' (prefix @ ?n) = None" by simp
      with None mdl mdl' Cons.prems(2,3) show ?thesis by (simp add: Let_def)
    next
      case (Some chkpt_param)
      note ck = this
      with same have ck': "d' (prefix @ ?n) = Some chkpt_param" by simp
      show ?thesis
      proof (cases "mix_param mp nc nm chkpt_param model_param")
        case (Inl err)
        with Cons.prems(2,3) mdl mdl' ck ck' show ?thesis by (simp add: Let_def)
      next
        case (Inr mixed)
        let ?d = "d(prefix @ ?n \<mapsto> mixed)" and ?d' = "d'(prefix @ ?n \<mapsto> mixed)"
        from Cons.prems(2) mdl ck Inr
        have r1: "mix_level md mp nc nm prefix level names True ?d = (f, e, r)"
          by (simp add: Let_def)
        from Cons.prems(3) mdl' ck' Inr
        have r2: "mix_level md' mp nc nm prefix level names True ?d' = (f', e', r')"
          by (simp add: Let_def)
        from Cons.prems(1)
        have pre: "\<forall>name \<in> set names. md (format name (str level)) = md' (format name (str level))
             \<and> ?d (prefix @ format name (str level)) = ?d' (prefix @ format name (str level))"
          by simp
        from Cons.IH[OF pre r1 r2] show ?thesis by simp
      qed
    qed
  qed
qed

lemma mix_levels_agree:
  assumes "\<forall>level \<in> set levels. \<forall>name \<in> set names.
             md (format name (str level)) = md' (format name (str level))
             \<and> d (prefix @ format name (str level)) = d' (prefix @ format name (str level))"
    and "mix_levels md mp nc nm prefix names levels d = (r, e)"
    and "mix_levels md' mp nc nm prefix names levels d' = (r', e')"
  shows "e = e' \<and> (\<forall>k. d k = d' k \<longrightarrow> r k = r' k)"
  using assms
proof (induction levels arbitrary: d d')
  case Nil then show ?case by simp
next
  case (Cons level levels)
  obtain f1 e1 d1 where lv: "mix_level md mp nc nm prefix level names False d = (f1, e1, d1)"
    by (cases "mix_level md mp nc nm prefix level names False d") auto
  obtain f2 e2 d2 where lv': "mix_level md' mp nc nm prefix level names False d' = (f2, e2, d2)"
    by (cases "mix_level md' mp nc nm prefix level names False d'") auto
  from Cons.prems(1) have here: "\<forall>name \<in> set names.
      md (format name (str level)) = md' (format name (str level))
      \<and> d (prefix @ format name (str level)) = d' (prefix @ format name (str level))" by simp
  from mix_level_agree[OF here lv lv'] have ag: "f1 = f2" "e1 = e2" "\<And>k. d k = d' k \<Longrightarrow> d1 k = d2 k"
    by simp_all
  show ?case
  proof (cases "e1 = None \<and> f1")
    case False
    with Cons.prems(2,3) lv lv' ag have "r = d1" "r' = d2" "e = e'"
      by (auto split: option.splits if_splits)
    with ag(3) show ?thesis by simp
  next
    case True
    with Cons.prems(2) lv have r1: "mix_levels md mp nc nm prefix names levels d1 = (r, e)" by simp
    from True ag Cons.prems(3) lv' have r2: "mix_levels md' mp nc nm prefix names levels d2 = (r', e')"
      by simp
    from Cons.prems(1) ag(3) have pre: "\<forall>level \<in> set levels. \<forall>name \<in> set names.
             md (format name (str level)) = md' (format name (str level))
             \<and> d1 (prefix @ format name (str level)) = d2 (prefix @ format name (str level))"
      by simp
    from Cons.IH[OF pre r1 r2] ag(3) show ?thesis by simp
  qed
qed

lemma str_0: "str 0 = ''0''"
  by (simp add: str.simps digit_def)

lemma low_not_high:
  assumes "name \<in> set all_param_names" "level < 10"
  shows "\<not> high_level (format name (str level))"
proof
  assume "high_level (format name (str level))"
  then obtain name' l' where h: "name' \<in> set all_param_names" "10 \<le> l'"
    "format name (str level) = format name' (str l')" by (auto simp: high_level_def)
  from h(3) have "[] @ format name (str level) = [] @ format name' (str l')" by simp
  from key_inj[OF assms(1) h(1) this] assms(2) h(2) show False by simp
qed

lemma probe_not_high: "\<not> high_level ''bbox_head.cls_convs.0.0.weight''"
proof
  assume "high_level ''bbox_head.cls_convs.0.0.weight''"
  then obtain name l where h: "name \<in> set all_param_names" "10 \<le> l"
    "''bbox_head.cls_convs.0.0.weight'' = format name (str l)" by (auto simp: high_level_def)
  from format_param_name[OF h(1)] obtain suffix where
    "format name (str l) = ''bbox_head.cls_convs.'' @ str l @ CHR ''.'' # suffix" by blast
  with h(3) have "str 0 @ CHR ''.'' # ''0.weight'' = str l @ CHR ''.'' # suffix" by (simp add: str_0)
  then have "str 0 = str l" using str_no_dot[of 0] str_no_dot[of l] by (rule level_of_key)
  then have "0 = l" by (rule str_inj)
  with h(2) show False by simp
qed

lemma hook_frame:
  fixes model_dict chkpt_dict :: "'a state_dict"
  assumes "\<forall>level < n. \<forall>name \<in> set all_param_names. k \<noteq> prefix @ format name (str level)"
    and "set names \<subseteq> set all_param_names"
  shows "fst (mix_levels model_dict mp nc nm prefix names [0..<n] chkpt_dict) k = chkpt_dict k"
proof -
  obtain d' err where r: "mix_levels model_dict mp nc nm prefix names [0..<n] chkpt_dict = (d', err)"
    by (cases "mix_levels model_dict mp nc nm prefix names [0..<n] chkpt_dict") auto
  from assms have "\<forall>level \<in> set [0..<n]. \<forall>name \<in> set names. k \<noteq> prefix @ format name (str level)"
    by (metis atLeastLessThan_iff set_upt subsetD)
  with mix_levels_frame[OF r] have "d' k = chkpt_dict k" by blast
  with r show ?thesis by simp
qed

text \<open>
  C9. The hook probes levels 0 to 9 only. It never writes a parameter of a level of 10 or
  more (first part) and never reads one: changing such parameters in the model's state dict
  or in the checkpoint dict changes neither the outcome nor any other entry of the result
  (third part). It leaves the level loop at the first level whose first probed name is
  missing from either dict, so the parameters of that level and of all later levels are
  untouched (second part).
\<close>

theorem hook_levels:
  fixes model_dict chkpt_dict :: "'a state_dict"
  shows "(\<forall>k. high_level k \<longrightarrow>
            fst (load_state_dict_pre_hook mcn model_dict model_classes chkpt_classes chkpt_dict prefix)
              (prefix @ k) = chkpt_dict (prefix @ k))
       \<and> (\<forall>l0 L. \<forall>name \<in> set all_param_names.
            first_missing model_dict chkpt_dict prefix l0 \<and> l0 \<le> L \<longrightarrow>
            fst (load_state_dict_pre_hook mcn model_dict model_classes chkpt_classes chkpt_dict prefix)
              (prefix @ format name (str L)) = chkpt_dict (prefix @ format name (str L)))
       \<and> (\<forall>model_dict' chkpt_dict'.
            (\<forall>k. \<not> high_level k \<longrightarrow>
               model_dict' k = model_dict k \<and> chkpt_dict' (prefix @ k) = chkpt_dict (prefix @ k)) \<longrightarrow>
            snd (load_state_dict_pre_hook mcn model_dict' model_classes chkpt_classes chkpt_dict' prefix)
              = snd (load_state_dict_pre_hook mcn model_dict model_classes chkpt_classes chkpt_dict prefix)
          \<and> (\<forall>k. \<not> high_level k \<longrightarrow>
               fst (load_state_dict_pre_hook mcn model_dict' model_classes chkpt_classes chkpt_dict' prefix)
                 (prefix @ k)
               = fst (load_state_dict_pre_hook mcn model_dict model_classes chkpt_classes chkpt_dict prefix)
                 (prefix @ k)))"
proof (intro conjI allI ballI impI)
  let ?mp = "mcn (model_classes @ [''__BG__'']) (chkpt_classes @ [''__BG__''])"
  let ?nc = "length (chkpt_classes @ [''__BG__''])" and ?nm = "length (model_classes @ [''__BG__''])"
  let ?names = "param_names chkpt_dict prefix"
  have hook: "load_state_dict_pre_hook mcn md model_classes chkpt_classes cd prefix
      = mix_levels md ?mp ?nc ?nm prefix (param_names cd prefix) [0..<10] cd"
    for md cd :: "'a state_dict"
    by (simp add: load_state_dict_pre_hook_def Let_def)
  note sub = param_names_subset[of chkpt_dict prefix]
  {
    fix k assume "high_level k"
    then obtain name' L where h: "name' \<in> set all_param_names" "10 \<le> L" "k = format name' (str L)"
      by (auto simp: high_level_def)
    have "\<forall>level < 10. \<forall>name \<in> set all_param_names. prefix @ k \<noteq> prefix @ format name (str level)"
    proof (intro allI ballI impI notI)
      fix level name assume "level < (10::nat)" "name \<in> set all_param_names"
        "prefix @ k = prefix @ format name (str level)"
      with h key_inj[of name' name prefix L level] show False by simp
    qed
    from hook_frame[OF this sub]
    show "fst (load_state_dict_pre_hook mcn model_dict model_classes chkpt_classes chkpt_dict prefix)
              (prefix @ k) = chkpt_dict (prefix @ k)"
      by (simp add: hook)
  }
  {
    fix l0 L name
    assume name: "name \<in> set all_param_names"
      and "first_missing model_dict chkpt_dict prefix l0 \<and> l0 \<le> L"
    then have miss: "first_missing model_dict chkpt_dict prefix l0" and le: "l0 \<le> L" by simp_all
    from miss have stop: "?names = [] \<or> model_dict (format (hd ?names) (str l0)) = None
           \<or> chkpt_dict (prefix @ format (hd ?names) (str l0)) = None"
      by (auto simp: first_missing_def split: list.splits)
    let ?n = "min l0 10"
    have run: "mix_levels model_dict ?mp ?nc ?nm prefix ?names [0..<10] chkpt_dict
        = mix_levels model_dict ?mp ?nc ?nm prefix ?names [0..<?n] chkpt_dict"
    proof (cases "l0 < 10")
      case True
      then have "[0..<10] = [0..<l0] @ l0 # [Suc l0..<10]"
        by (metis le0 upt_add_eq_append upt_conv_Cons less_imp_le_nat le_add_diff_inverse)
      moreover from stop
      have "mix_levels model_dict ?mp ?nc ?nm prefix ?names ([0..<l0] @ l0 # [Suc l0..<10]) chkpt_dict
          = mix_levels model_dict ?mp ?nc ?nm prefix ?names [0..<l0] chkpt_dict"
        by (rule mix_levels_stop)
      ultimately show ?thesis using True by (simp add: min_def)
    next
      case False
      then show ?thesis by (simp add: min_def)
    qed
    have "\<forall>level < ?n. \<forall>name' \<in> set all_param_names.
        prefix @ format name (str L) \<noteq> prefix @ format name' (str level)"
    proof (intro allI ballI impI notI)
      fix level name' assume "level < ?n" "name' \<in> set all_param_names"
        "prefix @ format name (str L) = prefix @ format name' (str level)"
      with name le key_inj[of name name' prefix L level] show False by simp
    qed
    then have "fst (mix_levels model_dict ?mp ?nc ?nm prefix ?names [0..<?n] chkpt_dict)
              (prefix @ format name (str L)) = chkpt_dict (prefix @ format name (str L))"
      using sub by (rule hook_frame)
    then show "fst (load_state_dict_pre_hook mcn model_dict model_classes chkpt_classes chkpt_dict prefix)
              (prefix @ format name (str L)) = chkpt_dict (prefix @ format name (str L))"
      unfolding hook run .
  }
  {
    fix model_dict' chkpt_dict' :: "'a state_dict"
    assume agree: "\<forall>k. \<not> high_level k \<longrightarrow>
               model_dict' k = model_dict k \<and> chkpt_dict' (prefix @ k) = chkpt_dict (prefix @ k)"
    have "format ''bbox_head.cls_convs.{}.weight'' (str 0) = ''bbox_head.cls_convs.0.weight''"
      by (simp add: str_0)
    moreover have "\<not> high_level (format ''bbox_head.cls_convs.{}.weight'' (str 0))"
      by (rule low_not_high) (simp_all add: all_param_names_def)
    ultimately have p1: "\<not> high_level ''bbox_head.cls_convs.0.weight''" by simp
    from agree p1 probe_not_high have names: "param_names chkpt_dict' prefix = ?names"
      by (simp add: param_names_def)
    obtain r e where r: "mix_levels model_dict ?mp ?nc ?nm prefix ?names [0..<10] chkpt_dict = (r, e)"
      by (cases "mix_levels model_dict ?mp ?nc ?nm prefix ?names [0..<10] chkpt_dict") auto
    obtain r' e' where r': "mix_levels model_dict' ?mp ?nc ?nm prefix ?names [0..<10] chkpt_dict' = (r', e')"
      by (cases "mix_levels model_dict' ?mp ?nc ?nm prefix ?names [0..<10] chkpt_dict'") auto
    have pre: "\<forall>level \<in> set [0..<10]. \<forall>name \<in> set ?names.
             model_dict' (format name (str level)) = model_dict (format name (str level))
             \<and> chkpt_dict' (prefix @ format name (str level)) = chkpt_dict (prefix @ format name (str level))"
      using agree low_not_high sub by auto
    from mix_levels_agree[OF pre r' r] have res: "e' = e" "\<And>k. chkpt_dict' k = chkpt_dict k \<Longrightarrow> r' k = r k"
      by simp_all
    from res(1) r r' names
    show "snd (load_state_dict_pre_hook mcn model_dict' model_classes chkpt_classes chkpt_dict' prefix)
              = snd (load_state_dict_pre_hook mcn model_dict model_classes chkpt_classes chkpt_dict prefix)"
      by (simp add: hook)
    fix k assume "\<not> high_level k"
    with agree have "chkpt_dict' (prefix @ k) = chkpt_dict (prefix @ k)" by simp
    from res(2)[OF this] r r' names
    show "fst (load_state_dict_pre_hook mcn model_dict' model_classes chkpt_classes chkpt_dict' prefix)
                 (prefix @ k)
               = fst (load_state_dict_pre_hook mcn model_dict model_classes chkpt_classes chkpt_dict prefix)
                 (prefix @ k)"
      by (simp add: hook)
  }
qed

theorem hook_levels_witness:
  "fst (load_state_dict_pre_hook (\<lambda>xs ys. map_class_names ys xs)
          [''bbox_head.cls_convs.0.weight'' \<mapsto> [0, 0 :: nat]] [''a''] [''a'']
          [''bbox_head.cls_convs.0.weight'' \<mapsto> [7, 8], ''bbox_head.cls_convs.12.weight'' \<mapsto> [5]] [])
     ''bbox_head.cls_convs.12.weight'' = Some [5]
   \<and> fst (load_state_dict_pre_hook (\<lambda>xs ys. map_class_names ys xs)
          [''bbox_head.cls_convs.0.weight'' \<mapsto> [0, 0 :: nat]] [''a''] [''a'']
          [''bbox_head.cls_convs.0.weight'' \<mapsto> [7, 8], ''bbox_head.cls_convs.12.weight'' \<mapsto> [5]] [])
     ''bbox_head.cls_convs.1.bias'' = None"
proof -
  let ?md = "[''bbox_head.cls_convs.0.weight'' \<mapsto> [0, 0 :: nat]]"
  let ?cd = "[''bbox_head.cls_convs.0.weight'' \<mapsto> [7, 8 :: nat], ''bbox_head.cls_convs.12.weight'' \<mapsto> [5]]"
  note h = hook_levels [of "\<lambda>xs ys. map_class_names ys xs" ?md "[''a'']" "[''a'']" ?cd "[]"]
  have s12: "str 12 = ''12''" and s1: "str 1 = ''1''" "str (Suc 0) = ''1''"
    by (simp_all add: str.simps digit_def)
  have "format ''bbox_head.cls_convs.{}.weight'' (str 12) = ''bbox_head.cls_convs.12.weight''"
    by (simp add: s12)
  then have high: "high_level ''bbox_head.cls_convs.12.weight''"
    unfolding high_level_def all_param_names_def
    by (intro bexI [of _ "''bbox_head.cls_convs.{}.weight''"] exI [of _ 12]) simp_all
  have miss: "first_missing ?md ?cd [] 1"
    by (simp add: first_missing_def param_names_def s1)
  have bias: "''bbox_head.cls_convs.{}.bias'' \<in> set all_param_names"
    by (simp add: all_param_names_def)
  from conjunct1 [OF h, rule_format, OF high]
  have a: "fst (load_state_dict_pre_hook (\<lambda>xs ys. map_class_names ys xs) ?md [''a''] [''a''] ?cd [])
     ''bbox_head.cls_convs.12.weight'' = Some [5]" by simp
  from conjunct1 [OF conjunct2 [OF h], rule_format, OF bias, of 1 1] miss
  have b: "fst (load_state_dict_pre_hook (\<lambda>xs ys. map_class_names ys xs) ?md [''a''] [''a''] ?cd [])
     ''bbox_head.cls_convs.1.bias'' = None" by (simp add: s1)
  from a b show ?thesis by (rule conjI)
qed

lemma mix_level_blocks:
  assumes "distinct (map (\<lambda>name. format name (str level)) names)"
    and "mix_level md mp nc nm prefix level names found d = (f, e, d')"
  shows "d' k = d k \<or>
     (\<exists>name \<in> set names. \<exists>chkpt_param model_param mixed.
        k = prefix @ format name (str level) \<and> d k = Some chkpt_param
      \<and> md (format name (str level)) = Some model_param
      \<and> mix_param mp nc nm chkpt_param model_param = Inr mixed \<and> d' k = Some mixed)"
  using assms
proof (induction names arbitrary: found d)
  case Nil
  then show ?case by simp
next
  case (Cons name names)
  let ?n = "format name (str level)"
  from Cons.prems(1) have dist: "distinct (map (\<lambda>name. format name (str level)) names)"
    and fresh: "\<forall>name' \<in> set names. format name' (str level) \<noteq> ?n"
    by (simp, metis (no_types, lifting) distinct.simps(2) image_eqI list.simps(9) set_map)
  show ?case
  proof (cases "md ?n")
    case None
    with Cons.prems(2) show ?thesis by (simp add: Let_def)
  next
    case (Some model_param)
    note mdl = this
    show ?thesis
    proof (cases "d (prefix @ ?n)")
      case None
      with mdl Cons.prems(2) show ?thesis by (simp add: Let_def)
    next
      case (Some chkpt_param)
      note ck = this
      show ?thesis
      proof (cases "mix_param mp nc nm chkpt_param model_param")
        case (Inl err)
        with mdl ck Cons.prems(2) show ?thesis by (simp add: Let_def)
      next
        case (Inr mixed)
        let ?d = "d(prefix @ ?n \<mapsto> mixed)"
        from Cons.prems(2) mdl ck Inr
        have run: "mix_level md mp nc nm prefix level names True ?d = (f, e, d')"
          by (simp add: Let_def)
        from Cons.IH[OF dist run] consider (same) "d' k = ?d k"
          | (later) name' cp mpar mx where "name' \<in> set names" "k = prefix @ format name' (str level)"
              "?d k = Some cp" "md (format name' (str level)) = Some mpar"
              "mix_param mp nc nm cp mpar = Inr mx" "d' k = Some mx"
          by blast
        then show ?thesis
        proof cases
          case same
          show ?thesis
          proof (cases "k = prefix @ ?n")
            case True
            with same have "d' k = Some mixed" by simp
            with True ck mdl Inr show ?thesis by auto
          next
            case False
            with same show ?thesis by simp
          qed
        next
          case later
          from later(1,2) fresh have "k \<noteq> prefix @ ?n" by auto
          with later(3) have "d k = Some cp" by simp
          with later show ?thesis by auto
        qed
      qed
    qed
  qed
qed

lemma mix_levels_blocks:
  assumes "distinct levels"
    and "\<And>level. level \<in> set levels \<Longrightarrow> distinct (map (\<lambda>name. format name (str level)) names)"
    and "\<And>l l' n n'. l \<in> set levels \<Longrightarrow> l' \<in> set levels \<Longrightarrow> n \<in> set names \<Longrightarrow> n' \<in> set names \<Longrightarrow>
           prefix @ format n (str l) = prefix @ format n' (str l') \<Longrightarrow> l = l'"
    and "mix_levels md mp nc nm prefix names levels d = (d', e)"
  shows "d' k = d k \<or>
     (\<exists>level \<in> set levels. \<exists>name \<in> set names. \<exists>chkpt_param model_param mixed.
        k = prefix @ format name (str level) \<and> d k = Some chkpt_param
      \<and> md (format name (str level)) = Some model_param
      \<and> mix_param mp nc nm chkpt_param model_param = Inr mixed \<and> d' k = Some mixed)"
  using assms
proof (induction levels arbitrary: d)
  case Nil
  then show ?case by simp
next
  case (Cons level levels)
  obtain f1 e1 d1 where lv: "mix_level md mp nc nm prefix level names False d = (f1, e1, d1)"
    by (cases "mix_level md mp nc nm prefix level names False d") auto
  have here: "d1 k = d k \<or>
     (\<exists>name \<in> set names. \<exists>chkpt_param model_param mixed.
        k = prefix @ format name (str level) \<and> d k = Some chkpt_param
      \<and> md (format name (str level)) = Some model_param
      \<and> mix_param mp nc nm chkpt_param model_param = Inr mixed \<and> d1 k = Some mixed)"
    using Cons.prems(2)[of level] lv by (intro mix_level_blocks) simp_all
  show ?case
  proof (cases "e1 = None \<and> f1")
    case False
    with Cons.prems(4) lv have "d' = d1" by (auto split: option.splits if_splits)
    with here show ?thesis by auto
  next
    case True
    with Cons.prems(4) lv have run: "mix_levels md mp nc nm prefix names levels d1 = (d', e)" by simp
    from Cons.prems(1) have dl: "distinct levels" and nl: "level \<notin> set levels" by simp_all
    have "d' k = d1 k \<or>
     (\<exists>level \<in> set levels. \<exists>name \<in> set names. \<exists>chkpt_param model_param mixed.
        k = prefix @ format name (str level) \<and> d1 k = Some chkpt_param
      \<and> md (format name (str level)) = Some model_param
      \<and> mix_param mp nc nm chkpt_param model_param = Inr mixed \<and> d' k = Some mixed)"
      using dl Cons.prems(2,3) run by (intro Cons.IH) auto
    then consider (same) "d' k = d1 k"
      | (later) l' name' cp mpar mx where "l' \<in> set levels" "name' \<in> set names"
          "k = prefix @ format name' (str l')" "d1 k = Some cp"
          "md (format name' (str l')) = Some mpar" "mix_param mp nc nm cp mpar = Inr mx"
          "d' k = Some mx"
      by blast
    then show ?thesis
    proof cases
      case same
      with here show ?thesis by auto
    next
      case later
      have "\<forall>name \<in> set names. k \<noteq> prefix @ format name (str level)"
      proof (intro ballI notI)
        fix name assume "name \<in> set names" "k = prefix @ format name (str level)"
        with later(1,2,3) Cons.prems(3)[of l' level name' name] have "l' = level" by simp
        with later(1) nl show False by simp
      qed
      with mix_level_frame[OF lv] have "d1 k = d k" by blast
      with later show ?thesis by auto
    qed
  qed
qed

lemma param_names_distinct:
  "distinct (map (\<lambda>name. format name arg) (param_names chkpt_dict prefix))"
  by (simp add: param_names_def)

text \<open>
  Every block the hook stores under a checkpoint name is the mixing of the block the
  checkpoint held under that name with the model's block of that name, for the class
  mapping and the class counts of the two lists extended by the background name; every
  other entry of the checkpoint dict is as it was.
\<close>

lemma hook_blocks:
  fixes model_dict chkpt_dict :: "'a state_dict"
  shows "fst (load_state_dict_pre_hook mcn model_dict model_classes chkpt_classes chkpt_dict prefix) k
           = chkpt_dict k
     \<or> (\<exists>level < 10. \<exists>name \<in> set (param_names chkpt_dict prefix). \<exists>chkpt_param model_param mixed.
          k = prefix @ format name (str level) \<and> chkpt_dict k = Some chkpt_param
        \<and> model_dict (format name (str level)) = Some model_param
        \<and> mix_param (mcn (model_classes @ [''__BG__'']) (chkpt_classes @ [''__BG__'']))
             (length (chkpt_classes @ [''__BG__''])) (length (model_classes @ [''__BG__'']))
             chkpt_param model_param = Inr mixed
        \<and> fst (load_state_dict_pre_hook mcn model_dict model_classes chkpt_classes chkpt_dict prefix) k
             = Some mixed)"
proof -
  let ?mp = "mcn (model_classes @ [''__BG__'']) (chkpt_classes @ [''__BG__''])"
  let ?nc = "length (chkpt_classes @ [''__BG__''])" and ?nm = "length (model_classes @ [''__BG__''])"
  let ?names = "param_names chkpt_dict prefix"
  obtain d' e where run: "mix_levels model_dict ?mp ?nc ?nm prefix ?names [0..<10] chkpt_dict = (d', e)"
    by (cases "mix_levels model_dict ?mp ?nc ?nm prefix ?names [0..<10] chkpt_dict") auto
  have hook: "fst (load_state_dict_pre_hook mcn model_dict model_classes chkpt_classes chkpt_dict prefix) = d'"
    using run by (simp add: load_state_dict_pre_hook_def Let_def)
  have inj: "l = l'" if "n \<in> set ?names" "n' \<in> set ?names"
    "prefix @ format n (str l) = prefix @ format n' (str l')" for l l' n n'
    using that param_names_subset[of chkpt_dict prefix] key_inj[of n n' prefix l l'] by blast
  have "d' k = chkpt_dict k \<or>
     (\<exists>level \<in> set [0..<10]. \<exists>name \<in> set ?names. \<exists>chkpt_param model_param mixed.
        k = prefix @ format name (str level) \<and> chkpt_dict k = Some chkpt_param
      \<and> model_dict (format name (str level)) = Some model_param
      \<and> mix_param ?mp ?nc ?nm chkpt_param model_param = Inr mixed \<and> d' k = Some mixed)"
    using run by (intro mix_levels_blocks) (simp_all add: param_names_distinct inj)
  then show ?thesis unfolding hook by auto
qed

section \<open>Properties of the task configuration\<close>

lemma setdiff1d_empty: "setdiff1d dst old = [] \<longleftrightarrow> [x \<leftarrow> dst. x \<notin> set old] = []"
proof -
  have "setdiff1d dst old = [] \<longleftrightarrow> set (setdiff1d dst old) = {}" by simp
  also have "\<dots> \<longleftrightarrow> set [x \<leftarrow> dst. x \<notin> set old] = {}" by (simp add: setdiff1d_def)
  also have "\<dots> \<longleftrightarrow> [x \<leftarrow> dst. x \<notin> set old] = []" by (simp only: set_empty)
  finally show ?thesis .
qed

lemma pseudo_label_hooks:
  "pseudo_label pre s = Inr s' \<Longrightarrow> custom_hooks (cfg s') = custom_hooks (cfg s)"
  by (auto simp: pseudo_label_def Let_def split: option.splits if_splits)

lemma configure_mpa_hook:
  assumes "configure_mpa upd model_classes data_classes s = Inr s'"
  shows "\<exists>old dst. local_old_classes s = Some old \<and> local_dst_classes s = Some dst
     \<and> custom_hooks (cfg s') =
         upd (task_adapt_hook old dst (model_type (cfg s)) (setdiff1d dst old \<noteq> [])
                (efficient_mode_of (cfg s)))
             (custom_hooks (cfg s))
     \<and> cfg_new_classes (train_data_cfg s') = Some (setdiff1d dst old)"
  using assms
  by (auto simp: configure_mpa_def Let_def efficient_mode_of_def split: option.splits if_splits)

lemma refine_training_hooks:
  "refine_training s = Inr s' \<Longrightarrow> custom_hooks (cfg s') = custom_hooks (cfg s)
     \<and> model_type (cfg s') = model_type (cfg s) \<and> task_adapt_type (cfg s') = task_adapt_type (cfg s)
     \<and> efficient_mode_of (cfg s') = efficient_mode_of (cfg s)"
  by (auto simp: refine_training_def efficient_mode_of_def split: option.splits if_splits sum.splits)

text \<open>
  C8. When \<open>configure_task\<close> returns in the training phase with adapt type \<open>mpa\<close>, the
  delta it stores as \<open>new_classes\<close> is \<open>setdiff1d dst_classes old_classes\<close>, which is
  empty exactly when the order preserving difference is empty; the hook config it registers
  has \<open>sampler_flag\<close> true exactly when the delta is not empty; and with an empty delta
  \<open>before_epoch\<close> of that hook returns the runner, and so its data loader, unchanged,
  whatever the sampler constructor is.
\<close>

theorem sampler_disabled:
  assumes run: "configure_task upd model_classes data_classes pre cfg0 tdc0 True meta0 = Inr s"
    and mpa: "task_adapt_type cfg0 = Some ''mpa''"
  shows "\<exists>old dst hook.
           local_old_classes s = Some old \<and> local_dst_classes s = Some dst
         \<and> cfg_new_classes (train_data_cfg s) = Some (setdiff1d dst old)
         \<and> (setdiff1d dst old = []) = ([x \<leftarrow> dst. x \<notin> set old] = [])
         \<and> custom_hooks (cfg s) = upd hook (custom_hooks cfg0)
         \<and> hook_src_classes hook = old \<and> hook_dst_classes hook = dst
         \<and> hook_sampler_flag hook = (setdiff1d dst old \<noteq> [])
         \<and> (setdiff1d dst old = [] \<longrightarrow>
              (\<forall>ClsIncrSampler inner_dataset (runner :: ('d, 's, 'f, 'r) runner_scheme).
                 before_epoch ClsIncrSampler inner_dataset hook runner = runner))"
proof -
  let ?s0 = "\<lparr>cfg = cfg0, train_data_cfg = tdc0, model_meta = meta0,
               local_model_tasks = None, local_old_tasks = None, local_dst_classes = None, local_old_classes = None\<rparr>"
  let ?s2 = "fill_new_classes model_classes data_classes (set_meta_classes model_classes data_classes ?s0)"
  have c2: "custom_hooks (cfg ?s2) = custom_hooks cfg0" "task_adapt_type (cfg ?s2) = task_adapt_type cfg0"
    by (simp_all add: fill_new_classes_def set_meta_classes_def)
  from run obtain s3 s4 where s3: "refine_training ?s2 = Inr s3"
    and s4: "configure_mpa upd model_classes data_classes s3 = Inr s4"
    and s: "pseudo_label pre s4 = Inr s"
    using mpa c2(2)
    by (auto simp: configure_task_def Let_def refine_training_hooks split: sum.splits if_splits)
  from configure_mpa_hook[OF s4] obtain old dst where h:
    "local_old_classes s3 = Some old" "local_dst_classes s3 = Some dst"
    "custom_hooks (cfg s4) =
         upd (task_adapt_hook old dst (model_type (cfg s3)) (setdiff1d dst old \<noteq> [])
                (efficient_mode_of (cfg s3)))
             (custom_hooks (cfg s3))"
    "cfg_new_classes (train_data_cfg s4) = Some (setdiff1d dst old)" by blast
  let ?hook = "task_adapt_hook old dst (model_type (cfg s3)) (setdiff1d dst old \<noteq> [])
                (efficient_mode_of (cfg s3))"
  from s4 h(1,2) have l4: "local_old_classes s4 = Some old" "local_dst_classes s4 = Some dst"
    by (auto simp: configure_mpa_def Let_def split: if_splits)
  from s l4 h(4) have l: "local_old_classes s = Some old" "local_dst_classes s = Some dst"
    "cfg_new_classes (train_data_cfg s) = Some (setdiff1d dst old)"
    by (auto simp: pseudo_label_def Let_def split: option.splits if_splits)
  from pseudo_label_hooks[OF s] h(3) refine_training_hooks[OF s3] c2(1)
  have hooks: "custom_hooks (cfg s) = upd ?hook (custom_hooks cfg0)" by simp
  have flag: "hook_sampler_flag ?hook = (setdiff1d dst old \<noteq> [])"
    "hook_src_classes ?hook = old" "hook_dst_classes ?hook = dst"
    by (simp_all add: task_adapt_hook_def)
  have unchanged: "before_epoch S inner ?hook runner = runner" if "setdiff1d dst old = []"
    for S inner and runner :: "('d, 's, 'f, 'r) runner_scheme"
    using that flag(1) by (simp add: before_epoch_def)
  from l hooks flag unchanged setdiff1d_empty[of dst old] show ?thesis by blast
qed

theorem sampler_disabled_witness:
  "\<exists>s hook. configure_task (#) [] [] (None :: unit option)
        \<lparr>task_adapt_type = Some ''mpa'', task_adapt_op = Some ''MERGE'',
         task_adapt_efficient_mode = None, load_from = ''ckpt.pth'', model_type = ''SAMImageClassifier'',
         model_task_adapt = None, head_num_classes = None, head_num_old_classes = None,
         head_tasks = None, head_old_tasks = None, head_loss = None, val_dst_classes = None,
         test_dst_classes = None, custom_hooks = []\<rparr>
        \<lparr>cfg_new_classes = Some [''a''], cfg_tasks = None, ds_type = ''ClsDirDataset'',
         ds_classes = None, ds_CLASSES = None, ds_pre_stage_res = None, ds_model_tasks = None,
         ds_dst_classes = None\<rparr>
        True \<lparr>meta_CLASSES = Some [''a'', ''b''], meta_tasks = None\<rparr> = Inr s
     \<and> custom_hooks (cfg s) = [hook] \<and> \<not> hook_sampler_flag hook
     \<and> cfg_new_classes (train_data_cfg s) = Some []"
proof -
  let ?cfg = "\<lparr>task_adapt_type = Some ''mpa'', task_adapt_op = Some ''MERGE'',
         task_adapt_efficient_mode = None, load_from = ''ckpt.pth'', model_type = ''SAMImageClassifier'',
         model_task_adapt = None, head_num_classes = None, head_num_old_classes = None,
         head_tasks = None, head_old_tasks = None, head_loss = None, val_dst_classes = None,
         test_dst_classes = None, custom_hooks = [] :: hook_cfg list\<rparr>"
  let ?tdc = "\<lparr>cfg_new_classes = Some [''a''], cfg_tasks = None, ds_type = ''ClsDirDataset'',
         ds_classes = None, ds_CLASSES = None, ds_pre_stage_res = None :: unit option,
         ds_model_tasks = None, ds_dst_classes = None\<rparr>"
  let ?meta = "\<lparr>meta_CLASSES = Some [''a'', ''b''], meta_tasks = None\<rparr>"
  have "\<exists>s. configure_task (#) [] [] None ?cfg ?tdc True ?meta = Inr s
          \<and> local_old_classes s = Some [''a'', ''b''] \<and> local_dst_classes s = Some [''a'', ''b'']"
    by (simp add: configure_task_def set_meta_classes_def fill_new_classes_def truthy_def
        refine_training_def refine_cls_def adapt_type_of_def configure_mpa_def
        CLASS_INC_DATASET_def WEIGHT_MIX_CLASSIFIER_def pseudo_label_def Let_def)
  then obtain s where run: "configure_task (#) [] [] None ?cfg ?tdc True ?meta = Inr s"
    and loc: "local_old_classes s = Some [''a'', ''b'']" "local_dst_classes s = Some [''a'', ''b'']" by blast
  have mpa: "task_adapt_type ?cfg = Some ''mpa''" by simp
  from sampler_disabled [OF run mpa] loc obtain hook where
    "cfg_new_classes (train_data_cfg s) = Some (setdiff1d [''a'', ''b''] [''a'', ''b''])"
    "custom_hooks (cfg s) = [hook]"
    "hook_sampler_flag hook = (setdiff1d [''a'', ''b''] [''a'', ''b''] \<noteq> [])"
    by auto
  moreover have "setdiff1d [''a'', ''b''] [''a'', ''b''] = []" by (simp add: setdiff1d_def)
  ultimately show ?thesis using run by auto
qed

section \<open>Properties of the segmentation statistics\<close>

lemma label_schema_of_ok:
  "\<forall>i \<in> set gt. i < length classes \<Longrightarrow> label_schema_of classes gt = Inr (map ((!) classes) gt)"
  by (induction gt) auto

lemma new_class_values_of_ok:
  "\<forall>idx \<in> set idxs. 0 \<le> idx \<and> nat idx < length model2data \<Longrightarrow>
     new_class_values_of model2data idxs = Inr (map (\<lambda>idx. model2data ! nat idx) idxs)"
proof (induction idxs)
  case Nil then show ?case by simp
next
  case (Cons idx idxs)
  then have "0 \<le> idx" "nat idx < length model2data" by simp_all
  then have "py_index model2data idx = Inr (model2data ! nat idx)"
    by (simp add: py_index_def Let_def)
  with Cons show ?case by simp
qed

lemma has_new_class_ok:
  assumes helper: "\<And>xs ys. mcn xs ys = map (\<lambda>x. position x ys) xs"
    and sub: "set self_new_classes \<subseteq> set (''background'' # self_classes)"
    and valid: "valid_pixels self_classes gt_map"
  shows "has_new_class mcn (''background'' # self_classes)
           (mcn self_new_classes (''background'' # self_classes)) gt_map
         = Inr (contains_new_class self_classes self_new_classes gt_map)"
proof -
  let ?classes = "''background'' # self_classes"
  let ?norm = "map (\<lambda>p. if p = 255 then 0 else p) gt_map"
  let ?gt = "sort (remdups ?norm)"
  let ?schema = "map ((!) ?classes) ?gt"
  let ?m2d = "mcn ?classes ?schema"
  have gt_set: "set ?gt = set ?norm" by simp
  from valid have in_range: "\<forall>i \<in> set ?gt. i < length ?classes"
    unfolding valid_pixels_def by (auto simp del: length_Cons)
  then have schema: "label_schema_of ?classes ?gt = Inr ?schema" by (rule label_schema_of_ok)
  have m2d: "?m2d = map (\<lambda>c. position c ?schema) ?classes" by (rule helper)
  have idx: "0 \<le> position n ?classes \<and> nat (position n ?classes) < length ?classes
      \<and> ?classes ! nat (position n ?classes) = n" if "n \<in> set self_new_classes" for n
    using that sub position_present[of n ?classes] by blast
  have idxs: "\<forall>idx \<in> set (mcn self_new_classes ?classes). 0 \<le> idx \<and> nat idx < length ?m2d"
    using idx by (auto simp: helper simp del: position.simps)
  have vals: "new_class_values_of ?m2d (mcn self_new_classes ?classes)
      = Inr (map (\<lambda>n. position n ?schema) self_new_classes)"
  proof -
    have "map (\<lambda>idx. ?m2d ! nat idx) (mcn self_new_classes ?classes)
        = map (\<lambda>n. position n ?schema) self_new_classes"
    proof -
      have "?m2d ! nat (position n ?classes) = position n ?schema" if "n \<in> set self_new_classes" for n
      proof -
        from idx[OF that] have l: "nat (position n ?classes) < length ?classes"
          and e: "?classes ! nat (position n ?classes) = n" by simp_all
        from l have "?m2d ! nat (position n ?classes)
            = position (?classes ! nat (position n ?classes)) ?schema"
          unfolding m2d by (rule nth_map)
        with e show ?thesis by simp
      qed
      then show ?thesis by (simp add: helper[of self_new_classes] del: position.simps)
    qed
    with new_class_values_of_ok[OF idxs] show ?thesis by simp
  qed
  have "(\<exists>value \<in> set (map (\<lambda>n. position n ?schema) self_new_classes). value \<noteq> - 1)
      \<longleftrightarrow> (\<exists>n \<in> set self_new_classes. n \<in> set ?schema)"
    by (auto simp: position_absent simp del: position.simps)
  also have "\<dots> \<longleftrightarrow> (\<exists>p \<in> set ?norm. ?classes ! p \<in> set self_new_classes)"
    using gt_set by auto
  finally have decide: "(\<exists>value \<in> set (map (\<lambda>n. position n ?schema) self_new_classes). value \<noteq> - 1)
      \<longleftrightarrow> contains_new_class self_classes self_new_classes gt_map"
    by (simp add: contains_new_class_def)
  have "has_new_class mcn ?classes (mcn self_new_classes ?classes) gt_map
      = Inr (\<exists>value \<in> set (map (\<lambda>n. position n ?schema) self_new_classes). value \<noteq> - 1)"
    unfolding has_new_class_def Let_def schema sum.case vals ..
  then show ?thesis by (simp only: decide)
qed

lemma statistics_loop_ok:
  assumes "\<And>idx. idx \<in> set idxs \<Longrightarrow>
      has_new_class mcn classes nci (gt_seg_maps ! idx) = Inr (P idx)"
  shows "statistics_loop mcn classes nci gt_seg_maps idxs img
      = (\<lparr>old_indices = old_indices img @ [idx \<leftarrow> idxs. \<not> P idx],
          new_indices = new_indices img @ [idx \<leftarrow> idxs. P idx]\<rparr>, None)"
  using assms
proof (induction idxs arbitrary: img)
  case Nil then show ?case by simp
next
  case (Cons idx idxs)
  then have here: "has_new_class mcn classes nci (gt_seg_maps ! idx) = Inr (P idx)" by simp
  from Cons have rest: "\<And>img. statistics_loop mcn classes nci gt_seg_maps idxs img
      = (\<lparr>old_indices = old_indices img @ [idx \<leftarrow> idxs. \<not> P idx],
          new_indices = new_indices img @ [idx \<leftarrow> idxs. P idx]\<rparr>, None)" by simp
  show ?case by (simp add: here rest)
qed

text \<open>
  Where every new class is one of the background name and the dataset's classes, and every
  pixel value is 255 or the index of a class, \<open>statistics\<close> does what is asked of it. Let
  the helper return, for each name of its first argument, the position of that name in its
  second argument (\<open>statistics\<close> uses it so: \<open>new_class_indices\<close> has an index of
  \<open>classes\<close> per new class, \<open>model2data\<close> an index of \<open>label_schema\<close> per class).
  Then \<open>statistics\<close> raises nothing, the lists \<open>old\<close> and \<open>new\<close> together hold every
  sample index exactly once, and a sample is in \<open>new\<close> exactly when its map, with 255
  turned into 0, has a pixel of a new class.
\<close>

lemma statistics_partition:
  assumes helper: "\<And>xs ys. mcn xs ys = map (\<lambda>x. position x ys) xs"
    and sub: "set self_new_classes \<subseteq> set (''background'' # self_classes)"
    and valid: "\<forall>gt_map \<in> set gt_seg_maps. valid_pixels self_classes gt_map"
  shows "\<exists>img. statistics mcn self_classes self_new_classes gt_seg_maps = (img, None)
     \<and> distinct (old_indices img @ new_indices img)
     \<and> set (old_indices img) \<union> set (new_indices img) = {..<length gt_seg_maps}
     \<and> (\<forall>idx < length gt_seg_maps.
          idx \<in> set (new_indices img)
            \<longleftrightarrow> contains_new_class self_classes self_new_classes (gt_seg_maps ! idx))"
proof -
  let ?P = "\<lambda>idx. contains_new_class self_classes self_new_classes (gt_seg_maps ! idx)"
  let ?n = "length gt_seg_maps"
  let ?img = "\<lparr>old_indices = [idx \<leftarrow> [0..<?n]. \<not> ?P idx], new_indices = [idx \<leftarrow> [0..<?n]. ?P idx]\<rparr>"
  have each: "has_new_class mcn (''background'' # self_classes)
           (mcn self_new_classes (''background'' # self_classes)) (gt_seg_maps ! idx) = Inr (?P idx)"
    if "idx \<in> set [0..<?n]" for idx
  proof -
    from that have "gt_seg_maps ! idx \<in> set gt_seg_maps" by simp
    with valid have "valid_pixels self_classes (gt_seg_maps ! idx)" by blast
    with helper sub show ?thesis by (rule has_new_class_ok)
  qed
  let ?init = "\<lparr>old_indices = [], new_indices = []\<rparr>"
  have "statistics mcn self_classes self_new_classes gt_seg_maps
      = statistics_loop mcn (''background'' # self_classes)
           (mcn self_new_classes (''background'' # self_classes)) gt_seg_maps [0..<?n] ?init"
    by (simp add: statistics_def Let_def)
  also have "\<dots> = (\<lparr>old_indices = old_indices ?init @ [idx \<leftarrow> [0..<?n]. \<not> ?P idx],
          new_indices = new_indices ?init @ [idx \<leftarrow> [0..<?n]. ?P idx]\<rparr>, None)"
    by (rule statistics_loop_ok) (rule each)
  also have "\<dots> = (?img, None)" by simp
  finally have run: "statistics mcn self_classes self_new_classes gt_seg_maps = (?img, None)" .
  have "distinct (old_indices ?img @ new_indices ?img)" by auto
  moreover have "set (old_indices ?img) \<union> set (new_indices ?img) = {..<?n}" by auto
  moreover have "\<forall>idx < ?n. idx \<in> set (new_indices ?img) \<longleftrightarrow> ?P idx" by simp
  ultimately show ?thesis using run by blast
qed

lemma statistics_partition_example:
  "\<exists>img. statistics (\<lambda>xs ys. map (\<lambda>x. position x ys) xs) [''cat'', ''dog''] [''dog'']
            [[0, 1, 255], [2, 0], [1, 1]] = (img, None)
     \<and> 1 \<in> set (new_indices img) \<and> 0 \<notin> set (new_indices img)
     \<and> set (old_indices img) \<union> set (new_indices img) = {..<3}"
proof -
  let ?mcn = "\<lambda>xs ys. map (\<lambda>x. position x ys) xs"
  let ?maps = "[[0, 1, 255], [2, 0], [1, 1 :: nat]]"
  have helper: "\<And>xs ys. ?mcn xs ys = map (\<lambda>x. position x ys) xs" by simp
  have sub: "set [''dog''] \<subseteq> set (''background'' # [''cat'', ''dog''])" by simp
  have valid: "\<forall>gt_map \<in> set ?maps. valid_pixels [''cat'', ''dog''] gt_map"
    by (simp add: valid_pixels_def)
  from statistics_partition [of ?mcn "[''dog'']" "[''cat'', ''dog'']" ?maps, OF helper sub valid]
  obtain img where img: "statistics ?mcn [''cat'', ''dog''] [''dog''] ?maps = (img, None)"
    "set (old_indices img) \<union> set (new_indices img) = {..<length ?maps}"
    "\<And>idx. idx < length ?maps \<Longrightarrow>
        idx \<in> set (new_indices img) \<longleftrightarrow> contains_new_class [''cat'', ''dog''] [''dog''] (?maps ! idx)"
    by blast
  have "contains_new_class [''cat'', ''dog''] [''dog''] (?maps ! 1)"
    by (simp add: contains_new_class_def)
  with img(3) [of 1] have one: "1 \<in> set (new_indices img)" by simp
  have "\<not> contains_new_class [''cat'', ''dog''] [''dog''] (?maps ! 0)"
    by (simp add: contains_new_class_def)
  with img(3) [of 0] have zero: "0 \<notin> set (new_indices img)" by simp
  from img(1,2) one zero show ?thesis by auto
qed

text \<open>
  C6. The claim fails on the code when a new class is not among the dataset's classes. Its
  entry of \<open>new_class_indices\<close> is then \<open>-1\<close>, and \<open>model2data[-1]\<close> reads the entry
  of the last class instead of finding nothing: with classes \<open>cat, dog, cow\<close> and new
  classes \<open>zebra, cat\<close>, the sample whose only pixel is a cow is put in \<open>new\<close>, though
  the map is valid and holds no pixel of a new class. The other users of such a mapping test
  the entry with \<open>>= 0\<close> before they subscript with it.
\<close>

theorem statistics_sentinel_index:
  "statistics (\<lambda>xs ys. map (\<lambda>x. position x ys) xs) [''cat'', ''dog'', ''cow''] [''zebra'', ''cat'']
      [[3], [1], [0, 2]]
     = (\<lparr>old_indices = [2], new_indices = [0, 1]\<rparr>, None)
   \<and> (''background'' # [''cat'', ''dog'', ''cow'']) ! 3 = ''cow''
   \<and> ''cow'' \<notin> set [''zebra'', ''cat'']"
proof (intro conjI)
  have upt3: "[0..<3] = [0, 1, 2]" by (simp add: upt_rec)
  show "statistics (\<lambda>xs ys. map (\<lambda>x. position x ys) xs) [''cat'', ''dog'', ''cow''] [''zebra'', ''cat'']
      [[3], [1], [0, 2]]
     = (\<lparr>old_indices = [2], new_indices = [0, 1]\<rparr>, None)"
    by (simp add: statistics_def has_new_class_def py_index_def upt3 Let_def)
  show "(''background'' # [''cat'', ''dog'', ''cow'']) ! 3 = ''cow''" by simp
  show "''cow'' \<notin> set [''zebra'', ''cat'']" by simp
qed

section \<open>Properties of the refiners on the store\<close>

lemma preserves_refl: "preserves s s"
  by (simp add: preserves_def)

lemma preserves_trans: "preserves s s' \<Longrightarrow> preserves s' s'' \<Longrightarrow> preserves s s''"
  by (auto simp: preserves_def)

lemma preserves_alloc_list: "preserves s (snd (alloc_list xs s))"
  by (simp add: preserves_def alloc_list_def)

lemma preserves_alloc_dict: "preserves s (snd (alloc_dict d s))"
  by (simp add: preserves_def alloc_dict_def)

lemma preserves_list_at: "preserves s s' \<Longrightarrow> a < length (list_objs s) \<Longrightarrow> list_at s' a = list_at s a"
  by (auto simp: preserves_def list_at_def nth_append)

lemma preserves_dict_at: "preserves s s' \<Longrightarrow> a < length (dict_objs s) \<Longrightarrow> dict_at s' a = dict_at s a"
  by (auto simp: preserves_def dict_at_def nth_append)

lemma preserves_length:
  "preserves s s' \<Longrightarrow> length (list_objs s) \<le> length (list_objs s') \<and> length (dict_objs s) \<le> length (dict_objs s')"
  by (auto simp: preserves_def)

lemma preserves_dict_store:
  "length (dict_objs s0) \<le> a \<Longrightarrow> preserves s0 s \<Longrightarrow> preserves s0 (dict_store a key v s)"
  by (auto simp: preserves_def dict_store_def list_update_append)

lemma refine_cls_store_preserves: "preserves s (fst (refine_cls_store s train_cfg meta adapt_type))"
  by (auto simp: refine_cls_store_def preserves_refl preserves_def alloc_list_def split: option.splits)

lemma deepcopy_items_fresh:
  assumes "deepcopy_items memo items s = (items', s')"
    and "\<forall>(v, y) \<in> set memo. n0 \<le> y" and "n0 \<le> length (list_objs s)"
  shows "preserves s s' \<and> dict_objs s' = dict_objs s \<and> (\<forall>(key, y) \<in> set items'. n0 \<le> y)
       \<and> map fst items' = map fst items"
  using assms
proof (induction items arbitrary: memo s items' s')
  case Nil
  then show ?case by (simp add: preserves_refl)
next
  case (Cons kv items)
  obtain key v where kv: "kv = (key, v)" by (cases kv)
  show ?case
  proof (cases "map_of memo v")
    case (Some y)
    obtain r s1 where rec: "deepcopy_items memo items s = (r, s1)"
      by (cases "deepcopy_items memo items s")
    with Cons.prems(1) kv Some have res: "items' = (key, y) # r" "s' = s1" by simp_all
    from Some have "(v, y) \<in> set memo" by (rule map_of_SomeD)
    with Cons.prems(2) have "n0 \<le> y" by auto
    with Cons.IH[OF rec Cons.prems(2,3)] res kv show ?thesis by simp
  next
    case None
    let ?s1 = "snd (alloc_list (list_at s v) s)" and ?y = "length (list_objs s)"
    obtain r s2 where rec: "deepcopy_items ((v, ?y) # memo) items ?s1 = (r, s2)"
      by (cases "deepcopy_items ((v, ?y) # memo) items ?s1")
    with Cons.prems(1) kv None have res: "items' = (key, ?y) # r" "s' = s2"
      by (simp_all add: alloc_list_def)
    from Cons.prems(2,3) have m: "\<forall>(v, y) \<in> set ((v, ?y) # memo). n0 \<le> y" by simp
    from Cons.prems(3) have l: "n0 \<le> length (list_objs ?s1)" by (simp add: alloc_list_def)
    from Cons.IH[OF rec m l] have ih: "preserves ?s1 s2" "dict_objs s2 = dict_objs ?s1"
      "\<forall>(key, y) \<in> set r. n0 \<le> y" "map fst r = map fst items" by simp_all
    from preserves_trans[OF preserves_alloc_list ih(1)] have "preserves s s2" .
    moreover from ih(2) have "dict_objs s2 = dict_objs s" by (simp add: alloc_list_def)
    ultimately show ?thesis using ih(3,4) res kv Cons.prems(3) by simp
  qed
qed

lemma deepcopy_fresh:
  assumes "deepcopy x s = (y, s')"
  shows "preserves s s' \<and> y = length (dict_objs s) \<and> y < length (dict_objs s')
       \<and> (\<forall>(key, l) \<in> set (dict_at s' y). length (list_objs s) \<le> l)"
proof -
  obtain items' s1 where c: "deepcopy_items [] (dict_at s x) s = (items', s1)"
    by (cases "deepcopy_items [] (dict_at s x) s")
  from deepcopy_items_fresh[OF c, of "length (list_objs s)"]
  have f: "preserves s s1" "dict_objs s1 = dict_objs s" "\<forall>(key, y) \<in> set items'. length (list_objs s) \<le> y"
    by simp_all
  from assms c have r: "y = length (dict_objs s1)" "s' = s1\<lparr>dict_objs := dict_objs s1 @ [items']\<rparr>"
    by (simp_all add: deepcopy_def alloc_dict_def)
  from r(2) have "preserves s1 s'" by (simp add: preserves_def)
  with f(1) have "preserves s s'" by (rule preserves_trans)
  moreover from r f(2) have "dict_at s' y = items'" by (simp add: dict_at_def)
  ultimately show ?thesis using r f(2,3) by simp
qed

lemma set_update_subset: "set (AList.update k v al) \<subseteq> insert (k, v) (set al)"
  by (induction al) auto

lemma merge_task_store_step:
  assumes a: "a < length (dict_objs s)" and d0: "length (dict_objs s0) \<le> a" and p: "preserves s0 s"
  shows "preserves s0 (merge_task_store a (task, cls) s)
       \<and> length (dict_objs (merge_task_store a (task, cls) s)) = length (dict_objs s)
       \<and> (\<forall>(t, l) \<in> set (dict_at (merge_task_store a (task, cls) s) a).
             (t, l) \<in> set (dict_at s a) \<or> l = cls \<or> length (list_objs s) \<le> l)
       \<and> length (list_objs s) \<le> length (list_objs (merge_task_store a (task, cls) s))"
proof -
  have store: "preserves s0 (dict_store a task v s1)
       \<and> length (dict_objs (dict_store a task v s1)) = length (dict_objs s)
       \<and> (\<forall>(t, l) \<in> set (dict_at (dict_store a task v s1) a). (t, l) \<in> set (dict_at s a) \<or> l = v)
       \<and> length (list_objs s) \<le> length (list_objs (dict_store a task v s1))"
    if "preserves s s1" "dict_objs s1 = dict_objs s" for v s1
  proof -
    from p that(1) have "preserves s0 s1" by (rule preserves_trans)
    with d0 have "preserves s0 (dict_store a task v s1)" by (rule preserves_dict_store)
    moreover from that(2) a have "dict_at (dict_store a task v s1) a = AList.update task v (dict_at s a)"
      by (simp add: dict_store_def dict_at_def)
    moreover from that(1) have "length (list_objs s) \<le> length (list_objs (dict_store a task v s1))"
      by (auto simp: dict_store_def preserves_def)
    ultimately show ?thesis using that(2) set_update_subset[of task v "dict_at s a"]
      by (auto simp: dict_store_def)
  qed
  show ?thesis
  proof (cases "map_of (dict_at s a) task")
    case None
    with store[OF preserves_refl refl, of cls] show ?thesis
      by (auto simp: merge_task_store_def)
  next
    case (Some cur)
    show ?thesis
    proof (cases "list_at s cur = []")
      case True
      with Some store[OF preserves_refl refl, of cls] show ?thesis
        by (auto simp: merge_task_store_def)
    next
      case False
      let ?xs = "list_at s cur @ [c \<leftarrow> list_at s cls. c \<notin> set (list_at s cur)]"
      let ?s1 = "snd (alloc_list ?xs s)"
      have m: "merge_task_store a (task, cls) s = dict_store a task (length (list_objs s)) ?s1"
        using Some False by (simp add: merge_task_store_def alloc_list_def)
      have "preserves s ?s1" by (rule preserves_alloc_list)
      moreover have "dict_objs ?s1 = dict_objs s" by (simp add: alloc_list_def)
      ultimately show ?thesis using store[of ?s1 "length (list_objs s)"] unfolding m by auto
    qed
  qed
qed

lemma merge_tasks_store_loop:
  assumes "a < length (dict_objs s)" and "length (dict_objs s0) \<le> a" and "preserves s0 s"
    and "n0 \<le> length (list_objs s)"
    and "\<forall>(t, l) \<in> set (dict_at s a). n0 \<le> l \<or> l \<in> L"
    and "snd ` set items \<subseteq> L"
  shows "preserves s0 (merge_tasks_store a items s)
       \<and> a < length (dict_objs (merge_tasks_store a items s))
       \<and> (\<forall>(t, l) \<in> set (dict_at (merge_tasks_store a items s) a). n0 \<le> l \<or> l \<in> L)"
  using assms
proof (induction items arbitrary: s)
  case Nil
  then show ?case by simp
next
  case (Cons tc items)
  obtain task cls where tc: "tc = (task, cls)" by (cases tc)
  let ?s1 = "merge_task_store a (task, cls) s"
  from merge_task_store_step[OF Cons.prems(1,2,3), of task cls]
  have st: "preserves s0 ?s1" "length (dict_objs ?s1) = length (dict_objs s)"
    "\<forall>(t, l) \<in> set (dict_at ?s1 a). (t, l) \<in> set (dict_at s a) \<or> l = cls \<or> length (list_objs s) \<le> l"
    "length (list_objs s) \<le> length (list_objs ?s1)" by simp_all
  from Cons.prems(6) tc have cls: "cls \<in> L" and rest: "snd ` set items \<subseteq> L" by auto
  have inv: "\<forall>(t, l) \<in> set (dict_at ?s1 a). n0 \<le> l \<or> l \<in> L"
    using st(3) Cons.prems(4,5) cls by fastforce
  from st(2) Cons.prems(1) have a1: "a < length (dict_objs ?s1)" by simp
  from st(4) Cons.prems(4) have n1: "n0 \<le> length (list_objs ?s1)" by simp
  from Cons.IH[OF a1 Cons.prems(2) st(1) n1 inv rest] tc show ?case by simp
qed

lemma refine_tasks_store_preserves:
  "preserves s (fst (refine_tasks_store s train_cfg meta adapt_type))"
proof (cases "ref_tasks train_cfg")
  case None
  then show ?thesis by (simp add: refine_tasks_store_def preserves_refl)
next
  case (Some new_tasks)
  note new = this
  consider (replace) "adapt_type = ''REPLACE''" | (merge) "adapt_type = ''MERGE''"
    | (other) "adapt_type \<noteq> ''REPLACE''" "adapt_type \<noteq> ''MERGE''" by blast
  then show ?thesis
  proof cases
    case replace
    with new preserves_alloc_dict[of s "[]"] show ?thesis
      by (auto simp: refine_tasks_store_def split: prod.splits)
  next
    case other
    with new show ?thesis by (simp add: refine_tasks_store_def preserves_refl)
  next
    case merge
    show ?thesis
    proof (cases "ref_meta_tasks meta")
      case None
      with new merge show ?thesis by (simp add: refine_tasks_store_def preserves_refl)
    next
      case (Some old_tasks)
      obtain y s1 where dc: "deepcopy old_tasks s = (y, s1)" by (cases "deepcopy old_tasks s")
      from deepcopy_fresh[OF dc] have f: "preserves s s1" "y = length (dict_objs s)"
        "y < length (dict_objs s1)" by simp_all
      have "preserves s (merge_tasks_store y (dict_at s1 new_tasks) s1)"
        using merge_tasks_store_loop[OF f(3) _ f(1), of 0 UNIV "dict_at s1 new_tasks"] f(2) by simp
      with new merge Some dc show ?thesis by (simp add: refine_tasks_store_def)
    qed
  qed
qed

lemma refine_tasks_store_merge:
  assumes run: "refine_tasks_store s train_cfg meta ''MERGE'' = (s', Inr (model_tasks, old_tasks))"
    and new: "ref_tasks train_cfg = Some new_tasks" "new_tasks < length (dict_objs s)"
  shows "preserves s s' \<and> model_tasks = length (dict_objs s) \<and> ref_meta_tasks meta = Some old_tasks
       \<and> (\<forall>(t, l) \<in> set (dict_at s' model_tasks).
             length (list_objs s) \<le> l \<or> l \<in> snd ` set (dict_at s new_tasks))"
proof -
  from run new(1) have old: "ref_meta_tasks meta = Some old_tasks"
    by (auto simp: refine_tasks_store_def split: option.splits prod.splits)
  obtain y s1 where dc: "deepcopy old_tasks s = (y, s1)" by (cases "deepcopy old_tasks s")
  from run new(1) old dc have res: "model_tasks = y"
    "s' = merge_tasks_store y (dict_at s1 new_tasks) s1"
    by (auto simp: refine_tasks_store_def)
  from deepcopy_fresh[OF dc] have f: "preserves s s1" "y = length (dict_objs s)"
    "y < length (dict_objs s1)" "\<forall>(key, l) \<in> set (dict_at s1 y). length (list_objs s) \<le> l"
    by simp_all
  from preserves_dict_at[OF f(1) new(2)] have items: "dict_at s1 new_tasks = dict_at s new_tasks" .
  have d0: "length (dict_objs s) \<le> y" using f(2) by simp
  have n0: "length (list_objs s) \<le> length (list_objs s1)" using preserves_length[OF f(1)] by simp
  have init: "\<forall>(t, l) \<in> set (dict_at s1 y).
      length (list_objs s) \<le> l \<or> l \<in> snd ` set (dict_at s new_tasks)" using f(4) by auto
  have sub: "snd ` set (dict_at s new_tasks) \<subseteq> snd ` set (dict_at s new_tasks)" by simp
  from merge_tasks_store_loop[OF f(3) d0 f(1) n0 init sub]
  show ?thesis using res f(2) old by (simp add: items)
qed

text \<open>
  C10, as amended. Neither refiner changes an object of the store it is given: every list
  and every dict is still there, unchanged, after the call, whatever the adapt type and the
  outcome. Under MERGE the task set returned by \<open>refine_tasks\<close> is a new dict, and when
  no class list of the train config's tasks is a class list of \<open>meta['tasks']\<close>, no
  change to that dict or to the lists it holds alters the task set of \<open>meta['tasks']\<close>.
\<close>

theorem refine_inputs_unchanged:
  "preserves s (fst (refine_cls_store s train_cfg meta adapt_type))
   \<and> preserves s (fst (refine_tasks_store s train_cfg meta adapt_type))
   \<and> (\<forall>s' model_tasks old_tasks new_tasks s''.
        refine_tasks_store s train_cfg meta ''MERGE'' = (s', Inr (model_tasks, old_tasks))
        \<and> ref_tasks train_cfg = Some new_tasks
        \<and> new_tasks < length (dict_objs s) \<and> old_tasks < length (dict_objs s)
        \<and> (\<forall>l \<in> snd ` set (dict_at s old_tasks). l < length (list_objs s))
        \<and> snd ` set (dict_at s new_tasks) \<inter> snd ` set (dict_at s old_tasks) = {}
        \<and> only_task_set_changed s' model_tasks s''
        \<longrightarrow> model_tasks = length (dict_objs s) \<and> task_set_at s'' old_tasks = task_set_at s old_tasks)"
proof (intro conjI allI impI)
  show "preserves s (fst (refine_cls_store s train_cfg meta adapt_type))"
    by (rule refine_cls_store_preserves)
  show "preserves s (fst (refine_tasks_store s train_cfg meta adapt_type))"
    by (rule refine_tasks_store_preserves)
next
  fix s' model_tasks old_tasks new_tasks s''
  assume h: "refine_tasks_store s train_cfg meta ''MERGE'' = (s', Inr (model_tasks, old_tasks))
        \<and> ref_tasks train_cfg = Some new_tasks
        \<and> new_tasks < length (dict_objs s) \<and> old_tasks < length (dict_objs s)
        \<and> (\<forall>l \<in> snd ` set (dict_at s old_tasks). l < length (list_objs s))
        \<and> snd ` set (dict_at s new_tasks) \<inter> snd ` set (dict_at s old_tasks) = {}
        \<and> only_task_set_changed s' model_tasks s''"
  then have run: "refine_tasks_store s train_cfg meta ''MERGE'' = (s', Inr (model_tasks, old_tasks))"
    and new: "ref_tasks train_cfg = Some new_tasks" "new_tasks < length (dict_objs s)"
    and old: "old_tasks < length (dict_objs s)"
    and old_lists: "\<forall>l \<in> snd ` set (dict_at s old_tasks). l < length (list_objs s)"
    and sep: "snd ` set (dict_at s new_tasks) \<inter> snd ` set (dict_at s old_tasks) = {}"
    and mut: "only_task_set_changed s' model_tasks s''" by simp_all
  from refine_tasks_store_merge[OF run new] have m: "preserves s s'"
    "model_tasks = length (dict_objs s)"
    "\<forall>(t, l) \<in> set (dict_at s' model_tasks).
        length (list_objs s) \<le> l \<or> l \<in> snd ` set (dict_at s new_tasks)" by simp_all
  show "model_tasks = length (dict_objs s)" by (rule m(2))
  note len = preserves_length[OF m(1)]
  from old len m(2) mut have "dict_at s'' old_tasks = dict_at s' old_tasks"
    by (simp add: only_task_set_changed_def)
  with preserves_dict_at[OF m(1) old] have d: "dict_at s'' old_tasks = dict_at s old_tasks" by simp
  have l: "list_at s'' l = list_at s l" if "l \<in> snd ` set (dict_at s old_tasks)" for l
  proof -
    from that old_lists have lt: "l < length (list_objs s)" by blast
    have "l \<notin> snd ` set (dict_at s' model_tasks)"
    proof
      assume "l \<in> snd ` set (dict_at s' model_tasks)"
      then obtain t where "(t, l) \<in> set (dict_at s' model_tasks)" by auto
      with m(3) have "length (list_objs s) \<le> l \<or> l \<in> snd ` set (dict_at s new_tasks)" by blast
      with lt that sep show False by auto
    qed
    with mut lt len have "list_at s'' l = list_at s' l" by (simp add: only_task_set_changed_def)
    with preserves_list_at[OF m(1) lt] show ?thesis by simp
  qed
  show "task_set_at s'' old_tasks = task_set_at s old_tasks"
    unfolding task_set_at_def d
  proof (rule map_cong)
    fix x assume x: "x \<in> set (dict_at s old_tasks)"
    then have "snd x \<in> snd ` set (dict_at s old_tasks)" by (rule imageI)
    then have "list_at s'' (snd x) = list_at s (snd x)" by (rule l)
    then show "(case x of (task, cls) \<Rightarrow> (task, list_at s'' cls))
        = (case x of (task, cls) \<Rightarrow> (task, list_at s cls))" by (cases x) simp
  qed simp
qed

theorem refine_inputs_unchanged_witness:
  "task_set_at \<lparr>list_objs = [[''a'', ''b''], [''b'', ''c''], [''z'', ''y''], [''a'', ''b''], [''a'', ''b'', ''c'']],
                dict_objs = [[(''u'', 0)], [(''u'', 1), (''t'', 2)], [(''u'', 4), (''t'', 2)]]\<rparr> 0
     = [(''u'', [''a'', ''b''])]"
proof -
  let ?s = "\<lparr>list_objs = [[''a'', ''b''], [''b'', ''c''], [''z'']],
             dict_objs = [[(''u'', 0)], [(''u'', 1), (''t'', 2)]]\<rparr>"
  let ?cfg = "\<lparr>ref_new_classes = None, ref_tasks = Some 1\<rparr>"
  let ?meta = "\<lparr>ref_CLASSES = None, ref_meta_tasks = Some 0\<rparr>"
  let ?s' = "\<lparr>list_objs = [[''a'', ''b''], [''b'', ''c''], [''z''], [''a'', ''b''], [''a'', ''b'', ''c'']],
              dict_objs = [[(''u'', 0)], [(''u'', 1), (''t'', 2)], [(''u'', 4), (''t'', 2)]]\<rparr>"
  let ?s'' = "\<lparr>list_objs = [[''a'', ''b''], [''b'', ''c''], [''z'', ''y''], [''a'', ''b''], [''a'', ''b'', ''c'']],
               dict_objs = [[(''u'', 0)], [(''u'', 1), (''t'', 2)], [(''u'', 4), (''t'', 2)]]\<rparr>"
  have run: "refine_tasks_store ?s ?cfg ?meta ''MERGE'' = (?s', Inr (2, 0))"
    by (simp add: refine_tasks_store_def deepcopy_def alloc_dict_def alloc_list_def dict_at_def
        list_at_def merge_task_store_def dict_store_def)
  have refs: "ref_tasks ?cfg = Some 1" "1 < length (dict_objs ?s)" "0 < length (dict_objs ?s)"
    by simp_all
  have valid: "\<forall>l \<in> snd ` set (dict_at ?s 0). l < length (list_objs ?s)"
    and sep: "snd ` set (dict_at ?s 1) \<inter> snd ` set (dict_at ?s 0) = {}"
    by (simp_all add: dict_at_def)
  have mut: "only_task_set_changed ?s' 2 ?s''"
    unfolding only_task_set_changed_def
  proof (intro conjI allI impI)
    fix d :: nat
    show "dict_at ?s'' d = dict_at ?s' d" by (simp add: dict_at_def)
  next
    fix l :: nat
    assume "l < length (list_objs ?s')" and "l \<notin> snd ` set (dict_at ?s' 2)"
    then have "l < 5" "l \<noteq> 2" by (simp_all add: dict_at_def)
    then have "l = 0 \<or> l = 1 \<or> l = 3 \<or> l = 4" by arith
    then show "list_at ?s'' l = list_at ?s' l" by (auto simp: list_at_def)
  qed
  from refine_inputs_unchanged [of ?s ?cfg ?meta "''MERGE''"] run refs valid sep mut
  have "task_set_at ?s'' 0 = task_set_at ?s 0" by blast
  then show ?thesis by (simp add: task_set_at_def dict_at_def list_at_def)
qed

lemma shared_list_run:
  "refine_tasks_store \<lparr>list_objs = [[''x'']], dict_objs = [[(''u'', 0)], [(''t'', 0)]]\<rparr>
      \<lparr>ref_new_classes = None, ref_tasks = Some 1\<rparr> \<lparr>ref_CLASSES = None, ref_meta_tasks = Some 0\<rparr> ''MERGE''
   = (\<lparr>list_objs = [[''x''], [''x'']],
        dict_objs = [[(''u'', 0)], [(''t'', 0)], [(''u'', 1), (''t'', 0)]]\<rparr>, Inr (2, 0))"
  by (simp add: refine_tasks_store_def deepcopy_def alloc_dict_def alloc_list_def dict_at_def
      list_at_def merge_task_store_def dict_store_def)

text \<open>
  C10 as stated fails when the train config and the metadata share a list object: under
  MERGE a task that is new is stored with the train config's own list, here the list at
  address 0, which is also the list of task \<open>u\<close> of \<open>meta['tasks']\<close>; appending to it
  through the returned task set alters \<open>meta['tasks']\<close>.
\<close>

theorem refine_tasks_shared_list_counterexample:
  "refine_tasks_store \<lparr>list_objs = [[''x'']], dict_objs = [[(''u'', 0)], [(''t'', 0)]]\<rparr>
      \<lparr>ref_new_classes = None, ref_tasks = Some 1\<rparr> \<lparr>ref_CLASSES = None, ref_meta_tasks = Some 0\<rparr> ''MERGE''
   = (\<lparr>list_objs = [[''x''], [''x'']],
        dict_objs = [[(''u'', 0)], [(''t'', 0)], [(''u'', 1), (''t'', 0)]]\<rparr>, Inr (2, 0))
   \<and> only_task_set_changed
        \<lparr>list_objs = [[''x''], [''x'']],
         dict_objs = [[(''u'', 0)], [(''t'', 0)], [(''u'', 1), (''t'', 0)]]\<rparr> 2
        \<lparr>list_objs = [[''x'', ''y''], [''x'']],
         dict_objs = [[(''u'', 0)], [(''t'', 0)], [(''u'', 1), (''t'', 0)]]\<rparr>
   \<and> task_set_at \<lparr>list_objs = [[''x'', ''y''], [''x'']],
         dict_objs = [[(''u'', 0)], [(''t'', 0)], [(''u'', 1), (''t'', 0)]]\<rparr> 0
       \<noteq> task_set_at \<lparr>list_objs = [[''x'']], dict_objs = [[(''u'', 0)], [(''t'', 0)]]\<rparr> 0"
proof (intro conjI)
  show "refine_tasks_store \<lparr>list_objs = [[''x'']], dict_objs = [[(''u'', 0)], [(''t'', 0)]]\<rparr>
      \<lparr>ref_new_classes = None, ref_tasks = Some 1\<rparr> \<lparr>ref_CLASSES = None, ref_meta_tasks = Some 0\<rparr> ''MERGE''
   = (\<lparr>list_objs = [[''x''], [''x'']],
        dict_objs = [[(''u'', 0)], [(''t'', 0)], [(''u'', 1), (''t'', 0)]]\<rparr>, Inr (2, 0))"
    by (rule shared_list_run)
  show "only_task_set_changed
        \<lparr>list_objs = [[''x''], [''x'']],
         dict_objs = [[(''u'', 0)], [(''t'', 0)], [(''u'', 1), (''t'', 0)]]\<rparr> 2
        \<lparr>list_objs = [[''x'', ''y''], [''x'']],
         dict_objs = [[(''u'', 0)], [(''t'', 0)], [(''u'', 1), (''t'', 0)]]\<rparr>"
    unfolding only_task_set_changed_def
  proof (intro conjI allI impI)
    fix d :: nat
    show "dict_at \<lparr>list_objs = [[''x'', ''y''], [''x'']],
         dict_objs = [[(''u'', 0)], [(''t'', 0)], [(''u'', 1), (''t'', 0)]]\<rparr> d
       = dict_at \<lparr>list_objs = [[''x''], [''x'']],
         dict_objs = [[(''u'', 0)], [(''t'', 0)], [(''u'', 1), (''t'', 0)]]\<rparr> d"
      by (simp add: dict_at_def)
  next
    fix l :: nat
    assume "l < length (list_objs \<lparr>list_objs = [[''x''], [''x'']],
         dict_objs = [[(''u'', 0)], [(''t'', 0)], [(''u'', 1), (''t'', 0)]]\<rparr>)"
      and "l \<notin> snd ` set (dict_at \<lparr>list_objs = [[''x''], [''x'']],
         dict_objs = [[(''u'', 0)], [(''t'', 0)], [(''u'', 1), (''t'', 0)]]\<rparr> 2)"
    then have "l < 2" "l \<noteq> 0" "l \<noteq> 1" by (simp_all add: dict_at_def)
    then have False by simp
    then show "list_at \<lparr>list_objs = [[''x'', ''y''], [''x'']],
         dict_objs = [[(''u'', 0)], [(''t'', 0)], [(''u'', 1), (''t'', 0)]]\<rparr> l
       = list_at \<lparr>list_objs = [[''x''], [''x'']],
         dict_objs = [[(''u'', 0)], [(''t'', 0)], [(''u'', 1), (''t'', 0)]]\<rparr> l" ..
  qed
  show "task_set_at \<lparr>list_objs = [[''x'', ''y''], [''x'']],
         dict_objs = [[(''u'', 0)], [(''t'', 0)], [(''u'', 1), (''t'', 0)]]\<rparr> 0
       \<noteq> task_set_at \<lparr>list_objs = [[''x'']], dict_objs = [[(''u'', 0)], [(''t'', 0)]]\<rparr> 0"
    by (simp add: task_set_at_def dict_at_def list_at_def)
qed

subsection \<open>The store model agrees with the model on values\<close>

text \<open>
  Read back from the store, the outcome of each refiner on the store is the outcome of the
  refiner on the values the addresses stand for.
\<close>

lemma refine_cls_store_refines:
  assumes "\<forall>a. ref_CLASSES meta = Some a \<longrightarrow> a < length (list_objs s)"
  shows "(case refine_cls_store s train_cfg meta adapt_type of
            (s', Inl e) \<Rightarrow> refine_cls (train_cfg_at s train_cfg) (model_meta_at s meta) adapt_type = Inl e
          | (s', Inr (dst_classes, old_classes)) \<Rightarrow>
              refine_cls (train_cfg_at s train_cfg) (model_meta_at s meta) adapt_type
                = Inr (list_at s' dst_classes, list_at s' old_classes))"
  using assms
  by (auto simp: refine_cls_store_def refine_cls_def train_cfg_at_def model_meta_at_def
      alloc_list_def list_at_def nth_append split: option.splits)

lemma extends_lists_refl: "extends_lists s s"
  by (simp add: extends_lists_def)

lemma extends_lists_trans: "extends_lists s s' \<Longrightarrow> extends_lists s' s'' \<Longrightarrow> extends_lists s s''"
  by (auto simp: extends_lists_def)

lemma extends_lists_at: "extends_lists s s' \<Longrightarrow> a < length (list_objs s) \<Longrightarrow> list_at s' a = list_at s a"
  by (auto simp: extends_lists_def list_at_def nth_append)

lemma extends_lists_length: "extends_lists s s' \<Longrightarrow> length (list_objs s) \<le> length (list_objs s')"
  by (auto simp: extends_lists_def)

lemma preserves_extends: "preserves s s' \<Longrightarrow> extends_lists s s'"
  by (simp add: preserves_def extends_lists_def)

lemma deepcopy_items_value:
  assumes "deepcopy_items memo items s = (items', s')"
    and "\<forall>(v, y) \<in> set memo. v < length (list_objs s) \<and> y < length (list_objs s)
           \<and> list_at s y = list_at s v"
    and "\<forall>v \<in> snd ` set items. v < length (list_objs s)"
  shows "map (\<lambda>(key, y). (key, list_at s' y)) items' = map (\<lambda>(key, v). (key, list_at s v)) items
       \<and> (\<forall>y \<in> snd ` set items'. y < length (list_objs s'))"
  using assms
proof (induction items arbitrary: memo s items' s')
  case Nil
  then show ?case by simp
next
  case (Cons kv items)
  obtain key v where kv: "kv = (key, v)" by (cases kv)
  from Cons.prems(3) kv have v: "v < length (list_objs s)"
    and rest: "\<forall>v \<in> snd ` set items. v < length (list_objs s)" by simp_all
  show ?case
  proof (cases "map_of memo v")
    case (Some y)
    obtain r s1 where rec: "deepcopy_items memo items s = (r, s1)"
      by (cases "deepcopy_items memo items s")
    with Cons.prems(1) kv Some have res: "items' = (key, y) # r" "s' = s1" by simp_all
    from Some have "(v, y) \<in> set memo" by (rule map_of_SomeD)
    with Cons.prems(2) have y: "y < length (list_objs s)" "list_at s y = list_at s v" by auto
    from deepcopy_items_fresh[OF rec, of 0] have "preserves s s1" by simp
    then have ext: "extends_lists s s1" by (rule preserves_extends)
    from extends_lists_at[OF ext y(1)] y(2) have "list_at s1 y = list_at s v" by simp
    moreover from extends_lists_length[OF ext] y(1) have "y < length (list_objs s1)" by simp
    ultimately show ?thesis using Cons.IH[OF rec Cons.prems(2) rest] res kv by simp
  next
    case None
    let ?s1 = "snd (alloc_list (list_at s v) s)" and ?y = "length (list_objs s)"
    obtain r s2 where rec: "deepcopy_items ((v, ?y) # memo) items ?s1 = (r, s2)"
      by (cases "deepcopy_items ((v, ?y) # memo) items ?s1")
    with Cons.prems(1) kv None have res: "items' = (key, ?y) # r" "s' = s2"
      by (simp_all add: alloc_list_def)
    have ext1: "extends_lists s ?s1" by (simp add: extends_lists_def alloc_list_def)
    have len1: "length (list_objs ?s1) = Suc (length (list_objs s))" by (simp add: alloc_list_def)
    have new: "list_at ?s1 ?y = list_at s v" by (simp add: alloc_list_def list_at_def)
    have memo1: "\<forall>(v', y') \<in> set ((v, ?y) # memo). v' < length (list_objs ?s1)
        \<and> y' < length (list_objs ?s1) \<and> list_at ?s1 y' = list_at ?s1 v'"
    proof (clarify, intro conjI)
      fix v' y' assume "(v', y') \<in> set ((v, ?y) # memo)"
      then consider "v' = v" "y' = ?y" | "(v', y') \<in> set memo" by auto
      then have "v' < length (list_objs s) \<and> y' < length (list_objs ?s1)
          \<and> list_at ?s1 y' = list_at s v'"
      proof cases
        case 1
        with v new len1 show ?thesis by simp
      next
        case 2
        with Cons.prems(2) have "v' < length (list_objs s)" "y' < length (list_objs s)"
          "list_at s y' = list_at s v'" by auto
        with extends_lists_at[OF ext1, of y'] len1 show ?thesis by simp
      qed
      then show "v' < length (list_objs ?s1)" "y' < length (list_objs ?s1)"
        "list_at ?s1 y' = list_at ?s1 v'"
        using len1 extends_lists_at[OF ext1, of v'] by simp_all
    qed
    from rest len1 have rest1: "\<forall>v \<in> snd ` set items. v < length (list_objs ?s1)" by auto
    from Cons.IH[OF rec memo1 rest1]
    have ih: "map (\<lambda>(key, y). (key, list_at s2 y)) r = map (\<lambda>(key, v). (key, list_at ?s1 v)) items"
      "\<forall>y \<in> snd ` set r. y < length (list_objs s2)" by simp_all
    have "map (\<lambda>(key, v). (key, list_at ?s1 v)) items = map (\<lambda>(key, v). (key, list_at s v)) items"
      using rest extends_lists_at[OF ext1] by (intro map_cong) auto
    with ih(1) have tail: "map (\<lambda>(key, y). (key, list_at s2 y)) r
        = map (\<lambda>(key, v). (key, list_at s v)) items" by simp
    from deepcopy_items_fresh[OF rec, of 0] have "preserves ?s1 s2" by simp
    then have ext2: "extends_lists ?s1 s2" by (rule preserves_extends)
    from extends_lists_at[OF ext2, of ?y] len1 new have "list_at s2 ?y = list_at s v" by simp
    moreover from extends_lists_length[OF ext2] len1 have "?y < length (list_objs s2)" by simp
    ultimately show ?thesis using tail ih(2) res kv by simp
  qed
qed

lemma deepcopy_value:
  assumes "deepcopy x s = (y, s')" and "valid_task_set s x"
  shows "task_set_at s' y = task_set_at s x \<and> valid_task_set s' y"
proof -
  obtain items' s1 where c: "deepcopy_items [] (dict_at s x) s = (items', s1)"
    by (cases "deepcopy_items [] (dict_at s x) s")
  from assms(2) have v: "\<forall>v \<in> snd ` set (dict_at s x). v < length (list_objs s)"
    by (simp add: valid_task_set_def)
  from deepcopy_items_value[OF c _ v]
  have val: "map (\<lambda>(key, y). (key, list_at s1 y)) items' = map (\<lambda>(key, v). (key, list_at s v)) (dict_at s x)"
    "\<forall>y \<in> snd ` set items'. y < length (list_objs s1)" by simp_all
  from assms(1) c have r: "y = length (dict_objs s1)" "s' = s1\<lparr>dict_objs := dict_objs s1 @ [items']\<rparr>"
    by (simp_all add: deepcopy_def alloc_dict_def)
  from r have d: "dict_at s' y = items'" and l: "list_objs s' = list_objs s1"
    by (simp_all add: dict_at_def)
  from l have "list_at s' = list_at s1" by (simp add: list_at_def fun_eq_iff)
  with d val l r show ?thesis by (simp add: task_set_at_def valid_task_set_def)
qed

lemma map_of_task_set:
  "map_of (map (\<lambda>(task, cls). (task, f cls)) al) task = map_option f (map_of al task)"
  by (induction al) auto

lemma update_task_set:
  "map (\<lambda>(task, cls). (task, f cls)) (AList.update task v al)
     = AList.update task (f v) (map (\<lambda>(task, cls). (task, f cls)) al)"
  by (induction al) auto

lemma merge_task_store_value:
  assumes a: "valid_task_set s a" and cls: "cls < length (list_objs s)"
  shows "task_set_at (merge_task_store a (task, cls) s) a
           = merge_task (task_set_at s a) (task, list_at s cls)
       \<and> valid_task_set (merge_task_store a (task, cls) s) a
       \<and> extends_lists s (merge_task_store a (task, cls) s)"
proof -
  from a have al: "a < length (dict_objs s)"
    and av: "\<forall>l \<in> snd ` set (dict_at s a). l < length (list_objs s)"
    by (simp_all add: valid_task_set_def)
  have store: "task_set_at (dict_store a task v s1) a = AList.update task (list_at s1 v) (task_set_at s a)
       \<and> valid_task_set (dict_store a task v s1) a \<and> extends_lists s (dict_store a task v s1)"
    if ext: "extends_lists s s1" and d: "dict_objs s1 = dict_objs s" and v: "v < length (list_objs s1)"
    for v s1
  proof -
    let ?s2 = "dict_store a task v s1"
    from d al have da: "dict_at ?s2 a = AList.update task v (dict_at s a)"
      by (simp add: dict_store_def dict_at_def)
    have la: "list_at ?s2 = list_at s1" by (simp add: dict_store_def list_at_def fun_eq_iff)
    have same: "map (\<lambda>(task, cls). (task, list_at s1 cls)) (dict_at s a) = task_set_at s a"
      unfolding task_set_at_def using av extends_lists_at[OF ext] by (intro map_cong) auto
    have "task_set_at ?s2 a = AList.update task (list_at s1 v) (task_set_at s a)"
      by (simp add: task_set_at_def da la update_task_set same[unfolded task_set_at_def])
    moreover have "valid_task_set ?s2 a"
    proof -
      have "length (dict_objs ?s2) = length (dict_objs s)" using d by (simp add: dict_store_def)
      moreover have "list_objs ?s2 = list_objs s1" by (simp add: dict_store_def)
      moreover have "\<forall>l \<in> snd ` set (dict_at ?s2 a). l < length (list_objs s1)"
        unfolding da using av v extends_lists_length[OF ext] set_update_subset[of task v "dict_at s a"]
        by fastforce
      ultimately show ?thesis using al by (simp add: valid_task_set_def)
    qed
    moreover have "extends_lists s ?s2" using ext by (simp add: extends_lists_def dict_store_def)
    ultimately show ?thesis by simp
  qed
  have look: "map_of (task_set_at s a) task = map_option (list_at s) (map_of (dict_at s a) task)"
    by (simp add: task_set_at_def map_of_task_set)
  show ?thesis
  proof (cases "map_of (dict_at s a) task")
    case None
    with look store[OF extends_lists_refl refl cls] show ?thesis
      by (simp add: merge_task_store_def merge_task_def)
  next
    case (Some cur)
    show ?thesis
    proof (cases "list_at s cur")
      case Nil
      with Some look store[OF extends_lists_refl refl cls] show ?thesis
        by (simp add: merge_task_store_def merge_task_def)
    next
      case (Cons x xs)
      let ?merged = "list_at s cur @ [c \<leftarrow> list_at s cls. c \<notin> set (list_at s cur)]"
      let ?s1 = "snd (alloc_list ?merged s)"
      have m: "merge_task_store a (task, cls) s = dict_store a task (length (list_objs s)) ?s1"
        using Some Cons by (simp add: merge_task_store_def alloc_list_def)
      have ext: "extends_lists s ?s1" by (simp add: extends_lists_def alloc_list_def)
      have d: "dict_objs ?s1 = dict_objs s" by (simp add: alloc_list_def)
      have v: "length (list_objs s) < length (list_objs ?s1)" by (simp add: alloc_list_def)
      have "list_at ?s1 (length (list_objs s)) = ?merged" by (simp add: alloc_list_def list_at_def)
      with store[OF ext d v] Some Cons look show ?thesis
        unfolding m by (simp add: merge_task_def)
    qed
  qed
qed

lemma merge_tasks_store_value:
  assumes "valid_task_set s a" and "\<forall>cls \<in> snd ` set items. cls < length (list_objs s)"
  shows "task_set_at (merge_tasks_store a items s) a
           = merge_tasks (task_set_at s a) (map (\<lambda>(task, cls). (task, list_at s cls)) items)
       \<and> extends_lists s (merge_tasks_store a items s)"
  using assms
proof (induction items arbitrary: s)
  case Nil
  then show ?case by (simp add: extends_lists_refl)
next
  case (Cons tc items)
  obtain task cls where tc: "tc = (task, cls)" by (cases tc)
  let ?s1 = "merge_task_store a (task, cls) s"
  from Cons.prems(2) tc have cls: "cls < length (list_objs s)"
    and rest: "\<forall>cls \<in> snd ` set items. cls < length (list_objs s)" by simp_all
  from merge_task_store_value[OF Cons.prems(1) cls, of task]
  have st: "task_set_at ?s1 a = merge_task (task_set_at s a) (task, list_at s cls)"
    "valid_task_set ?s1 a" "extends_lists s ?s1" by simp_all
  from rest extends_lists_length[OF st(3)]
  have rest1: "\<forall>cls \<in> snd ` set items. cls < length (list_objs ?s1)" by auto
  from Cons.IH[OF st(2) rest1]
  have ih: "task_set_at (merge_tasks_store a items ?s1) a
      = merge_tasks (task_set_at ?s1 a) (map (\<lambda>(task, cls). (task, list_at ?s1 cls)) items)"
    "extends_lists ?s1 (merge_tasks_store a items ?s1)" by simp_all
  have "map (\<lambda>(task, cls). (task, list_at ?s1 cls)) items
      = map (\<lambda>(task, cls). (task, list_at s cls)) items"
    using rest extends_lists_at[OF st(3)] by (intro map_cong) auto
  with ih st tc extends_lists_trans[OF st(3) ih(2)] show ?case by simp
qed

lemma preserves_task_set_at:
  assumes "preserves s s'" and "valid_task_set s a"
  shows "task_set_at s' a = task_set_at s a"
proof -
  from assms(2) have a: "a < length (dict_objs s)"
    and v: "\<forall>l \<in> snd ` set (dict_at s a). l < length (list_objs s)"
    by (simp_all add: valid_task_set_def)
  from preserves_dict_at[OF assms(1) a] have d: "dict_at s' a = dict_at s a" .
  show ?thesis unfolding task_set_at_def d
    using v preserves_list_at[OF assms(1)] by (intro map_cong) auto
qed

lemma refine_tasks_store_refines:
  assumes new_ok: "\<forall>a. ref_tasks train_cfg = Some a \<longrightarrow> valid_task_set s a"
    and old_ok: "\<forall>a. ref_meta_tasks meta = Some a \<longrightarrow> valid_task_set s a"
  shows "(case refine_tasks_store s train_cfg meta adapt_type of
            (s', Inl e) \<Rightarrow>
              refine_tasks (train_cfg_at s train_cfg) (model_meta_at s meta) adapt_type = Inl e
          | (s', Inr (model_tasks, old_tasks)) \<Rightarrow>
              refine_tasks (train_cfg_at s train_cfg) (model_meta_at s meta) adapt_type
                = Inr (task_set_at s' model_tasks, task_set_at s' old_tasks))"
proof (cases "ref_tasks train_cfg")
  case None
  then show ?thesis by (simp add: refine_tasks_store_def refine_tasks_def train_cfg_at_def)
next
  case (Some new_tasks)
  note new = this
  with new_ok have nv: "valid_task_set s new_tasks" by simp
  consider (replace) "adapt_type = ''REPLACE''" | (merge) "adapt_type = ''MERGE''"
    | (other) "adapt_type \<noteq> ''REPLACE''" "adapt_type \<noteq> ''MERGE''" by blast
  then show ?thesis
  proof cases
    case other
    with new show ?thesis by (simp add: refine_tasks_store_def refine_tasks_def train_cfg_at_def)
  next
    case replace
    let ?s' = "snd (alloc_dict [] s)"
    have run: "refine_tasks_store s train_cfg meta adapt_type
        = (?s', Inr (new_tasks, length (dict_objs s)))"
      using new replace by (simp add: refine_tasks_store_def alloc_dict_def)
    have "task_set_at ?s' new_tasks = task_set_at s new_tasks"
      using preserves_alloc_dict nv by (rule preserves_task_set_at)
    moreover have "task_set_at ?s' (length (dict_objs s)) = []"
      by (simp add: task_set_at_def dict_at_def alloc_dict_def)
    ultimately show ?thesis using new replace unfolding run
      by (simp add: refine_tasks_def train_cfg_at_def)
  next
    case merge
    show ?thesis
    proof (cases "ref_meta_tasks meta")
      case None
      with new merge show ?thesis
        by (simp add: refine_tasks_store_def refine_tasks_def train_cfg_at_def model_meta_at_def)
    next
      case (Some old_tasks)
      with old_ok have ov: "valid_task_set s old_tasks" by simp
      obtain y s1 where dc: "deepcopy old_tasks s = (y, s1)" by (cases "deepcopy old_tasks s")
      let ?s' = "merge_tasks_store y (dict_at s1 new_tasks) s1"
      have run: "refine_tasks_store s train_cfg meta adapt_type = (?s', Inr (y, old_tasks))"
        using new merge Some dc by (simp add: refine_tasks_store_def)
      from deepcopy_value[OF dc ov] have copy: "task_set_at s1 y = task_set_at s old_tasks"
        "valid_task_set s1 y" by simp_all
      from deepcopy_fresh[OF dc] have p1: "preserves s s1" by simp
      from nv have nl: "new_tasks < length (dict_objs s)"
        and nls: "\<forall>cls \<in> snd ` set (dict_at s new_tasks). cls < length (list_objs s)"
        by (simp_all add: valid_task_set_def)
      from preserves_dict_at[OF p1 nl] have items: "dict_at s1 new_tasks = dict_at s new_tasks" .
      from nls preserves_length[OF p1]
      have nls1: "\<forall>cls \<in> snd ` set (dict_at s1 new_tasks). cls < length (list_objs s1)"
        unfolding items by auto
      from merge_tasks_store_value[OF copy(2) nls1]
      have "task_set_at ?s' y
          = merge_tasks (task_set_at s1 y) (map (\<lambda>(task, cls). (task, list_at s1 cls)) (dict_at s1 new_tasks))"
        by simp
      moreover have "map (\<lambda>(task, cls). (task, list_at s1 cls)) (dict_at s1 new_tasks)
          = task_set_at s new_tasks"
        unfolding items task_set_at_def using nls preserves_list_at[OF p1] by (intro map_cong) auto
      ultimately have model: "task_set_at ?s' y
          = merge_tasks (task_set_at s old_tasks) (task_set_at s new_tasks)"
        using copy(1) by simp
      have "preserves s (fst (refine_tasks_store s train_cfg meta adapt_type))"
        by (rule refine_tasks_store_preserves)
      then have "preserves s ?s'" unfolding run by simp
      then have old: "task_set_at ?s' old_tasks = task_set_at s old_tasks"
        using ov by (rule preserves_task_set_at)
      show ?thesis unfolding run using new merge Some model old
        by (simp add: refine_tasks_def train_cfg_at_def model_meta_at_def)
    qed
  qed
qed

end
